theory Spec2Isabelle
  imports Complex_Main "HOL-Library.Sublist" "HOL-Library.List_Lexorder"
begin

section \<open>Python strings\<close>

text \<open>
  A Python \<open>str\<close> is a sequence of Unicode code points; it is modelled as a list of natural
  numbers, one per code point. Literals of the source are ASCII apart from the arrow
  U+2192 of the \<open>- Date:\<close> and \<open>- Close:\<close> lines, which is the code point 8594.
\<close>

type_synonym pystr = "nat list"

definition lit :: "string \<Rightarrow> pystr" where
  "lit s = map of_char s"

datatype py_error = IndexError | TypeError | ZeroDivisionError

text \<open>
  \<open>str.isspace\<close>, \<open>str.strip()\<close> and the pattern \<open>\s\<close> of \<open>re\<close> on a \<open>str\<close> agree on what
  whitespace is: the code points below. \<open>str.splitlines()\<close> breaks a text at the
  code points of \<open>is_linebreak\<close>, taking CR LF as one boundary.
\<close>

definition is_space :: "nat \<Rightarrow> bool" where
  "is_space c = ((9 \<le> c \<and> c \<le> 13) \<or> (28 \<le> c \<and> c \<le> 32) \<or> c = 133 \<or> c = 160
     \<or> c = 5760 \<or> (8192 \<le> c \<and> c \<le> 8202) \<or> c = 8232 \<or> c = 8233 \<or> c = 8239
     \<or> c = 8287 \<or> c = 12288)"

definition is_linebreak :: "nat \<Rightarrow> bool" where
  "is_linebreak c = ((10 \<le> c \<and> c \<le> 13) \<or> (28 \<le> c \<and> c \<le> 30) \<or> c = 133
     \<or> c = 8232 \<or> c = 8233)"

definition strip :: "pystr \<Rightarrow> pystr" where
  "strip s = rev (dropWhile is_space (rev (dropWhile is_space s)))"

definition rstrip_nl :: "pystr \<Rightarrow> pystr" where
  \<comment> \<open>\<open>s.rstrip("\n")\<close>\<close>
  "rstrip_nl s = rev (dropWhile (\<lambda>c. c = 10) (rev s))"

definition startswith :: "pystr \<Rightarrow> pystr \<Rightarrow> bool" where
  \<comment> \<open>\<open>s.startswith(p)\<close>\<close>
  "startswith s p = prefix p s"

fun splitlines_from :: "pystr \<Rightarrow> pystr \<Rightarrow> pystr list" where
  "splitlines_from cur [] = (if cur = [] then [] else [cur])"
| "splitlines_from cur [c] = (if is_linebreak c then [cur] else [cur @ [c]])"
| "splitlines_from cur (c # d # ds) =
     (if c = 13 \<and> d = 10 then cur # splitlines_from [] ds
      else if is_linebreak c then cur # splitlines_from [] (d # ds)
      else splitlines_from (cur @ [c]) (d # ds))"

definition splitlines :: "pystr \<Rightarrow> pystr list" where
  "splitlines s = splitlines_from [] s"

definition split1 :: "nat \<Rightarrow> pystr \<Rightarrow> pystr list" where
  \<comment> \<open>\<open>s.split(sep, 1)\<close> for a separator of one character\<close>
  "split1 sep s =
     (let a = takeWhile (\<lambda>c. c \<noteq> sep) s; b = dropWhile (\<lambda>c. c \<noteq> sep) s
      in if b = [] then [a] else [a, tl b])"

definition index1 :: "'a list \<Rightarrow> py_error + 'a" where
  \<comment> \<open>\<open>xs[1]\<close>\<close>
  "index1 xs = (if 1 < length xs then Inr (xs ! 1) else Inl IndexError)"

definition after_colon :: "pystr \<Rightarrow> py_error + pystr" where
  \<comment> \<open>\<open>s.split(":", 1)[1].strip()\<close>\<close>
  "after_colon s = (case index1 (split1 58 s) of Inl e \<Rightarrow> Inl e | Inr r \<Rightarrow> Inr (strip r))"

definition ascii_lower :: "nat \<Rightarrow> nat" where
  "ascii_lower c = (if 65 \<le> c \<and> c \<le> 90 then c + 32 else c)"

definition lower_startswith_summary :: "pystr \<Rightarrow> bool" where
  \<comment> \<open>\<open>txt.lower().startswith("summary:")\<close>: the only code points that \<open>lower()\<close> sends to
      one of the letters of \<open>summary:\<close> are these letters and their ASCII capitals.\<close>
  "lower_startswith_summary txt = (map ascii_lower (take 8 txt) = lit ''summary:'')"

definition is_url :: "pystr \<Rightarrow> bool" where
  "is_url s0 = (let s = strip s0 in startswith s (lit ''http://'') \<or> startswith s (lit ''https://''))"

definition bullet2 :: "pystr \<Rightarrow> bool" where
  \<comment> \<open>\<open>re.match(r"^\s{2}-\s+", line)\<close>\<close>
  "bullet2 lin = (case lin of a # b # c # d # _ \<Rightarrow> is_space a \<and> is_space b \<and> c = 45 \<and> is_space d
                 | _ \<Rightarrow> False)"

definition bullet4 :: "pystr \<Rightarrow> bool" where
  \<comment> \<open>\<open>re.match(r"^\s{4}-\s+", line)\<close>\<close>
  "bullet4 lin = (case lin of a # b # c # d # e # f # _ \<Rightarrow>
                    is_space a \<and> is_space b \<and> is_space c \<and> is_space d \<and> e = 45 \<and> is_space f
                 | _ \<Rightarrow> False)"

definition bullet_text :: "nat \<Rightarrow> pystr \<Rightarrow> pystr" where
  \<comment> \<open>\<open>re.sub(r"^\s{n}-\s+", "", line).strip()\<close> on a line that the pattern matches: the
      indentation, the dash and the whitespace after it are removed\<close>
  "bullet_text n lin = strip (dropWhile is_space (drop (Suc n) lin))"

section \<open>The markup parser: \<open>parse_report\<close> of \<open>tools/export_report_pdf.py\<close>\<close>

record news_item =
  line :: pystr
  summary :: pystr
  url :: pystr

datatype kv_key = KDate | KClose | KVolume | KRange

text \<open>
  The dictionary \<open>kv\<close> of a section has the keys \<open>date\<close>, \<open>close\<close>, \<open>volume\<close> and \<open>range\<close>
  only; it is an association list in insertion order, as a Python dictionary is.
\<close>

fun dict_set :: "'k \<Rightarrow> 'v \<Rightarrow> ('k \<times> 'v) list \<Rightarrow> ('k \<times> 'v) list" where
  \<comment> \<open>\<open>d[k] = v\<close>: a key that is present keeps its place\<close>
  "dict_set k v [] = [(k, v)]"
| "dict_set k v ((k', v') # kvs) = (if k = k' then (k, v) # kvs else (k', v') # dict_set k v kvs)"

record report_section =
  ticker :: pystr
  kv :: "(kv_key \<times> pystr) list"
  news :: "news_item list"
  ai :: pystr

record report =
  title :: pystr
  meta :: pystr
  sections :: "report_section list"

datatype mode = MNone | MNews | MAi

text \<open>
  The parser's variables. \<open>last_news\<close> of the source is either \<open>None\<close> or the dictionary
  that was appended last to \<open>current["news"]\<close>, so it is a flag here, and an assignment
  through it updates the last element of the list.
\<close>

record pstate = report +
  current :: "report_section option"
  mode :: mode
  last_news :: bool

fun map_last :: "('a \<Rightarrow> 'a) \<Rightarrow> 'a list \<Rightarrow> 'a list" where
  "map_last f [] = []"
| "map_last f [x] = [f x]"
| "map_last f (x # y # ys) = x # map_last f (y # ys)"

definition set_current :: "pstate \<Rightarrow> report_section \<Rightarrow> pstate" where
  "set_current st c = st\<lparr>current := Some c\<rparr>"

definition kv_line :: "pstate \<Rightarrow> report_section \<Rightarrow> kv_key \<Rightarrow> pystr \<Rightarrow> py_error + pstate" where
  \<comment> \<open>\<open>current["kv"][k] = line.split(":", 1)[1].strip()\<close>\<close>
  "kv_line st cur k lin =
     (case after_colon lin of Inl e \<Rightarrow> Inl e
      | Inr v \<Rightarrow> Inr (set_current st (cur\<lparr>kv := dict_set k v (kv cur)\<rparr>)))"

definition sub_bullet :: "pstate \<Rightarrow> report_section \<Rightarrow> pystr \<Rightarrow> py_error + pstate" where
  \<comment> \<open>a bullet indented by four, under a news item\<close>
  "sub_bullet st cur lin =
     (let txt = bullet_text 4 lin in
      if lower_startswith_summary txt then
        (case after_colon txt of Inl e \<Rightarrow> Inl e
         | Inr v \<Rightarrow> Inr (set_current st (cur\<lparr>news := map_last (\<lambda>n. n\<lparr>summary := v\<rparr>) (news cur)\<rparr>)))
      else if is_url txt then
        Inr (set_current st (cur\<lparr>news := map_last (\<lambda>n. n\<lparr>url := txt\<rparr>) (news cur)\<rparr>))
      else Inr st)"

definition section_line :: "pstate \<Rightarrow> report_section \<Rightarrow> pystr \<Rightarrow> py_error + pstate" where
  \<comment> \<open>the body of the loop below \<open>if not current: continue\<close>\<close>
  "section_line st cur lin =
     (if startswith lin (lit ''- Date:'') then kv_line st cur KDate lin
      else if startswith lin (lit ''- Close:'') then kv_line st cur KClose lin
      else if startswith lin (lit ''- Volume:'') then kv_line st cur KVolume lin
      else if startswith lin (lit ''- 20D Range:'') then kv_line st cur KRange lin
      else if startswith lin (lit ''- News'') then Inr (st\<lparr>mode := MNews, last_news := False\<rparr>)
      else if startswith lin (lit ''- AI Summary:'') \<or> startswith lin (lit ''- Summary:'') then
        Inr (st\<lparr>mode := MAi\<rparr>)
      else if mode st = MNews \<and> bullet2 lin then
        Inr (st\<lparr>current := Some (cur\<lparr>news := news cur @
                   [\<lparr>line = bullet_text 2 lin, summary = [], url = []\<rparr>]\<rparr>),
                last_news := True\<rparr>)
      else if mode st = MNews \<and> bullet4 lin \<and> last_news st then sub_bullet st cur lin
      else if mode st = MAi \<and> bullet2 lin then
        (let txt = bullet_text 2 lin in
         Inr (set_current st (cur\<lparr>ai := (if ai cur \<noteq> [] then ai cur @ [10] @ txt else txt)\<rparr>)))
      else if mode st = MAi \<and> strip lin \<noteq> [] \<and> \<not> startswith lin (lit ''- '') then
        Inr (set_current st (cur\<lparr>ai := strip (ai cur @ [32] @ strip lin)\<rparr>))
      else Inr st)"

definition parse_line :: "pstate \<Rightarrow> pystr \<Rightarrow> py_error + pstate" where
  \<comment> \<open>the body of the loop over the lines\<close>
  "parse_line st raw =
     (let lin = rstrip_nl raw in
      if startswith lin (lit ''# '') then Inr (st\<lparr>title := strip (drop 2 lin)\<rparr>)
      else if meta st = [] \<and> startswith lin (lit ''## '') then Inr (st\<lparr>meta := strip (drop 3 lin)\<rparr>)
      else if startswith lin (lit ''### '') then
        Inr (st\<lparr>sections := (case current st of None \<Rightarrow> sections st | Some c \<Rightarrow> sections st @ [c]),
                current := Some \<lparr>ticker = strip (drop 4 lin), kv = [], news = [], ai = []\<rparr>,
                mode := MNone, last_news := False\<rparr>)
      else case current st of
        None \<Rightarrow> Inr st
      | Some cur \<Rightarrow> section_line st cur lin)"

fun parse_lines :: "pstate \<Rightarrow> pystr list \<Rightarrow> py_error + pstate" where
  "parse_lines st [] = Inr st"
| "parse_lines st (l # ls) =
     (case parse_line st l of Inl e \<Rightarrow> Inl e | Inr st' \<Rightarrow> parse_lines st' ls)"

definition init_state :: pstate where
  "init_state = \<lparr>title = [], meta = [], sections = [], current = None, mode = MNone,
                  last_news = False\<rparr>"

definition finish :: "pstate \<Rightarrow> report" where
  \<comment> \<open>after the loop: the open section is appended\<close>
  "finish st = \<lparr>title = title st, meta = meta st,
                 sections = (case current st of None \<Rightarrow> sections st | Some c \<Rightarrow> sections st @ [c])\<rparr>"

definition parse_report :: "pystr \<Rightarrow> py_error + report" where
  "parse_report md_text =
     (case parse_lines init_state (splitlines md_text) of
        Inl e \<Rightarrow> Inl e
      | Inr st \<Rightarrow> Inr (finish st))"

text \<open>
  The loop never takes an error branch (shown below), so it is a fold of the total function
  \<open>step\<close>.
\<close>

definition step :: "pstate \<Rightarrow> pystr \<Rightarrow> pstate" where
  "step st raw = (case parse_line st raw of Inr st' \<Rightarrow> st' | Inl _ \<Rightarrow> st)"

section \<open>The report generator: \<open>generate\<close> of \<open>reports/generate_report.py\<close>\<close>

text \<open>
  A Python \<open>float\<close> is modelled as a real number: rounding, infinities and NaN are outside
  the model. \<open>x / y\<close> raises \<open>ZeroDivisionError\<close> when \<open>y\<close> is zero.
\<close>

definition py_div :: "real \<Rightarrow> real \<Rightarrow> py_error + real" where
  "py_div x y = (if y = 0 then Inl ZeroDivisionError else Inr (x / y))"

subsection \<open>Number formatting\<close>

fun digits :: "nat \<Rightarrow> pystr" where
  "digits n = (if n < 10 then [48 + n] else digits (n div 10) @ [48 + n mod 10])"

function commas :: "pystr \<Rightarrow> pystr" where
  "commas ds = (if length ds \<le> 3 then ds
                else commas (take (length ds - 3) ds) @ [44] @ drop (length ds - 3) ds)"
  by pat_completeness auto
termination
  by (relation "measure length") auto

definition round_half_even :: "real \<Rightarrow> int" where
  "round_half_even y =
     (let f = \<lfloor>y\<rfloor>; d = y - of_int f
      in if d < 1 / 2 then f else if 1 / 2 < d then f + 1 else if even f then f else f + 1)"

definition fixed2 :: "real \<Rightarrow> pystr" where
  \<comment> \<open>the digits of \<open>|x|\<close> to two decimals\<close>
  "fixed2 x =
     (let n = nat (round_half_even (\<bar>x\<bar> * 100))
      in digits (n div 100) @ [46] @ [48 + (n mod 100) div 10, 48 + n mod 10])"

definition fmt2 :: "real \<Rightarrow> pystr" where
  \<comment> \<open>\<open>f"{x:.2f}"\<close>\<close>
  "fmt2 x = (if x < 0 then [45] else []) @ fixed2 x"

definition fmt2_signed :: "real \<Rightarrow> pystr" where
  \<comment> \<open>\<open>f"{x:+.2f}"\<close>\<close>
  "fmt2_signed x = (if x < 0 then [45] else [43]) @ fixed2 x"

definition fmt_commas :: "int \<Rightarrow> pystr" where
  \<comment> \<open>\<open>f"{v:,}"\<close>\<close>
  "fmt_commas v = (if v < 0 then [45] else []) @ commas (digits (nat \<bar>v\<bar>))"

subsection \<open>The rows read from the store\<close>

text \<open>
  A row of \<open>prices_daily\<close> as the first query returns it: ticker, \<open>str(date)\<close>, close and
  volume, the last two possibly \<open>NULL\<close>. A row of \<open>news\<close>: published_at, headline,
  summary, source, url, each possibly \<open>NULL\<close>. An entry of \<open>latest_map\<close>: date, close, volume.
\<close>

type_synonym price_row = "pystr \<times> pystr \<times> real option \<times> int option"
type_synonym news_row = "pystr option \<times> pystr option \<times> pystr option \<times> pystr option \<times> pystr option"
type_synonym price_item = "pystr \<times> real \<times> int"
type_synonym news_dict = "pystr \<times> pystr \<times> pystr \<times> pystr \<times> pystr"

text \<open>
  The arguments of \<open>summarize\<close>, in the order of the call: report_date, ticker, d0, d1, c0,
  c1, pct, volume, range_low, range_high, range_pos, news_items (each with published_at,
  source, headline, summary, url).
\<close>

type_synonym summ_args =
  "pystr \<times> pystr \<times> pystr \<times> pystr \<times> real \<times> real \<times> real \<times> int \<times> real \<times> real \<times> real \<times> news_dict list"

definition arg_ticker :: "summ_args \<Rightarrow> pystr" where
  "arg_ticker a = fst (snd a)"

text \<open>
  What \<open>generate\<close> takes from outside: the two queries it runs for each ticker, the
  narrative collaborator \<open>summarize\<close> (\<open>Inl msg\<close> when it raises an exception \<open>e\<close> with
  \<open>str(e) = msg\<close>), the outcome of the \<open>try\<close> block around \<open>datetime.fromisoformat\<close> on a
  non-empty timestamp (the short form, or the string itself), and the date of the run.
\<close>

record env =
  news_rows :: "pystr \<Rightarrow> news_row list"
  close_rows :: "pystr \<Rightarrow> real option list"
  summarize :: "summ_args \<Rightarrow> pystr + pystr"
  iso_short :: "pystr \<Rightarrow> pystr"
  today :: pystr

subsection \<open>The latest two samples of each ticker\<close>

definition or_empty :: "pystr option \<Rightarrow> pystr" where
  \<comment> \<open>\<open>x or ""\<close>\<close>
  "or_empty x = (case x of None \<Rightarrow> [] | Some s \<Rightarrow> s)"

definition dict_get :: "('k \<times> 'v list) list \<Rightarrow> 'k \<Rightarrow> 'v list" where
  "dict_get m k = (case map_of m k of None \<Rightarrow> [] | Some xs \<Rightarrow> xs)"

definition setdefault :: "('k \<times> 'v list) list \<Rightarrow> 'k \<Rightarrow> ('k \<times> 'v list) list" where
  \<comment> \<open>\<open>m.setdefault(k, [])\<close>\<close>
  "setdefault m k = (case map_of m k of None \<Rightarrow> m @ [(k, [])] | Some _ \<Rightarrow> m)"

fun add_row :: "(pystr \<times> price_item list) list \<Rightarrow> price_row \<Rightarrow>
    py_error + (pystr \<times> price_item list) list" where
  "add_row m (t, d, c, v) =
     (let m1 = setdefault m t; items = dict_get m1 t
      in if length items < 2 then
           (case c of
              None \<Rightarrow> Inl TypeError
            | Some x \<Rightarrow> Inr (dict_set t (items @ [(d, x, (case v of None \<Rightarrow> 0 | Some n \<Rightarrow> n))]) m1))
         else Inr m1)"

fun build_latest_map :: "(pystr \<times> price_item list) list \<Rightarrow> price_row list \<Rightarrow>
    py_error + (pystr \<times> price_item list) list" where
  "build_latest_map m [] = Inr m"
| "build_latest_map m (r # rs) =
     (case add_row m r of Inl e \<Rightarrow> Inl e | Inr m' \<Rightarrow> build_latest_map m' rs)"

definition report_date_of :: "env \<Rightarrow> (pystr \<times> price_item list) list \<Rightarrow> pystr" where
  "report_date_of e m =
     (case [fst (hd items). (t, items) \<leftarrow> m, items \<noteq> []] of
        [] \<Rightarrow> today e
      | d # ds \<Rightarrow> fold max ds d)"

subsection \<open>The lines of one ticker\<close>

definition pct_change :: "real \<Rightarrow> real \<Rightarrow> py_error + real" where
  \<comment> \<open>\<open>(c1 - c0) / c0 * 100 if c0 else 0.0\<close>\<close>
  "pct_change c1 c0 =
     (if c0 \<noteq> 0 then (case py_div (c1 - c0) c0 of Inl e \<Rightarrow> Inl e | Inr q \<Rightarrow> Inr (q * 100))
      else Inr 0)"

definition closes_20 :: "real option list \<Rightarrow> real list" where
  \<comment> \<open>\<open>[float(r[0]) for r in close_rows if r and r[0] is not None]\<close>\<close>
  "closes_20 rs = [x. Some x \<leftarrow> rs]"

definition range_stats :: "real \<Rightarrow> real list \<Rightarrow> py_error + real \<times> real \<times> real" where
  \<comment> \<open>\<open>(low_20, high_20, range_pos)\<close>\<close>
  "range_stats c1 cs =
     (case cs of
        [] \<Rightarrow> Inr (c1, c1, 1 / 2)
      | x # xs \<Rightarrow>
          (let high_20 = fold max xs x; low_20 = fold min xs x
           in if high_20 \<noteq> low_20 then
                (case py_div (c1 - low_20) (high_20 - low_20) of
                   Inl e \<Rightarrow> Inl e
                 | Inr p \<Rightarrow> Inr (low_20, high_20, p))
              else Inr (low_20, high_20, 1 / 2)))"

definition news_dict_of :: "env \<Rightarrow> news_row \<Rightarrow> news_dict" where
  \<comment> \<open>the fields of a news row after \<open>or ""\<close>, the timestamp's short form and \<open>strip()\<close>\<close>
  "news_dict_of e r =
     (case r of (published_at, headline, summ, source, link) \<Rightarrow>
        (let p0 = or_empty published_at
         in (if p0 \<noteq> [] then iso_short e p0 else p0,
             strip (or_empty source), strip (or_empty headline),
             strip (or_empty summ), strip (or_empty link))))"

definition news_item_lines :: "news_dict \<Rightarrow> pystr list" where
  "news_item_lines n =
     (case n of (published_at, source, headline, summ, link) \<Rightarrow>
        [lit ''  - '' @ published_at @ lit '' | '' @ source @ lit '' | '' @ headline]
        @ (if summ \<noteq> [] then [lit ''    - Summary: '' @ summ] else [])
        @ (if link \<noteq> [] then [lit ''    - '' @ link] else []))"

definition news_block :: "news_dict list \<Rightarrow> pystr list" where
  "news_block ns =
     lit ''- News (headline + summary):'' #
     (if ns = [] then [lit ''  - (no recent news)''] else concat (map news_item_lines ns))"

definition arrow :: pystr where
  "arrow = [32, 8594, 32]"

definition price_lines :: "price_item list \<Rightarrow>
    py_error + (pystr \<times> real \<times> real option \<times> pystr list)" where
  \<comment> \<open>\<open>(d0, c0, pct)\<close> and the lines on the prices; \<open>items\<close> is not empty\<close>
  "price_lines items =
     (case items of
        [] \<Rightarrow> Inl IndexError
      | (d1, c1, v1) # rest \<Rightarrow>
          (case rest of
             (d0, c0, v0) # _ \<Rightarrow>
               (case pct_change c1 c0 of
                  Inl e \<Rightarrow> Inl e
                | Inr pct \<Rightarrow>
                    Inr (d0, c0, Some pct,
                         [lit ''- Date: '' @ d0 @ arrow @ d1,
                          lit ''- Close: '' @ fmt2 c0 @ arrow @ fmt2 c1
                            @ lit '' ('' @ fmt2_signed pct @ lit ''%)'',
                          lit ''- Volume: '' @ fmt_commas v1]))
           | [] \<Rightarrow>
               Inr (d1, c1, None,
                    [lit ''- Latest: '' @ d1 @ lit '' | Close: '' @ fmt2 c1
                       @ lit '' | Vol: '' @ fmt_commas v1])))"

definition range_line :: "real \<times> real \<times> real \<Rightarrow> pystr" where
  "range_line r =
     (case r of (low_20, high_20, range_pos) \<Rightarrow>
        lit ''- 20D Range: low '' @ fmt2 low_20 @ lit '', high '' @ fmt2 high_20
          @ lit '', position '' @ fmt2 range_pos)"

definition summary_lines :: "env \<Rightarrow> real option \<Rightarrow> (real \<Rightarrow> summ_args) \<Rightarrow> pystr list" where
  "summary_lines e pct args =
     lit ''- Summary:'' #
     (case pct of
        None \<Rightarrow> [lit ''  - (need at least 2 trading days of price data)'']
      | Some p \<Rightarrow>
          (case summarize e (args p) of
             Inr ai_summary \<Rightarrow> [lit ''  - '' @ ai_summary]
           | Inl msg \<Rightarrow> [lit ''  - (Error: '' @ msg @ lit '')'']))"

definition ticker_block :: "env \<Rightarrow> pystr \<Rightarrow> pystr \<Rightarrow> price_item list \<Rightarrow> py_error + pystr list" where
  \<comment> \<open>the body of the loop over the sorted tickers\<close>
  "ticker_block e report_date t items =
     (case items of
        [] \<Rightarrow> Inl IndexError
      | (d1, c1, v1) # _ \<Rightarrow>
          (case price_lines items of
             Inl err \<Rightarrow> Inl err
           | Inr (d0, c0, pct, plines) \<Rightarrow>
               (let news_items = map (news_dict_of e) (news_rows e t)
                in case range_stats c1 (closes_20 (close_rows e t)) of
                     Inl err \<Rightarrow> Inl err
                   | Inr (low_20, high_20, range_pos) \<Rightarrow>
                       Inr ([lit ''### '' @ t] @ plines @ news_block news_items
                            @ [range_line (low_20, high_20, range_pos)]
                            @ summary_lines e pct
                                (\<lambda>p. (report_date, t, d0, d1, c0, c1, p, v1,
                                      low_20, high_20, range_pos, news_items))
                            @ [[]]))))"

fun ticker_blocks :: "env \<Rightarrow> pystr \<Rightarrow> (pystr \<times> price_item list) list \<Rightarrow> pystr list \<Rightarrow>
    py_error + pystr list" where
  "ticker_blocks e report_date m [] = Inr []"
| "ticker_blocks e report_date m (t # ts) =
     (case ticker_block e report_date t (dict_get m t) of
        Inl err \<Rightarrow> Inl err
      | Inr b \<Rightarrow>
          (case ticker_blocks e report_date m ts of
             Inl err \<Rightarrow> Inl err
           | Inr bs \<Rightarrow> Inr (b @ bs)))"

fun join_nl :: "pystr list \<Rightarrow> pystr" where
  \<comment> \<open>\<open>"\n".join(lines)\<close>\<close>
  "join_nl [] = []"
| "join_nl [l] = l"
| "join_nl (l # l' # ls) = l @ [10] @ join_nl (l' # ls)"

definition title_line :: "pystr \<Rightarrow> pystr" where
  "title_line report_date = lit ''# Daily Market Report ('' @ report_date @ lit '')'' @ [10]"

definition report_lines :: "env \<Rightarrow> price_row list \<Rightarrow> py_error + pystr list \<times> pystr" where
  \<comment> \<open>the list \<open>lines\<close> at the end of \<open>generate\<close>, and \<open>report_date\<close>\<close>
  "report_lines e rows =
     (case build_latest_map [] rows of
        Inl err \<Rightarrow> Inl err
      | Inr latest_map \<Rightarrow>
          (let report_date = report_date_of e latest_map
           in case ticker_blocks e report_date latest_map (sort (map fst latest_map)) of
                Inl err \<Rightarrow> Inl err
              | Inr bs \<Rightarrow> Inr (title_line report_date # bs, report_date)))"


declare digits.simps [simp del]
declare commas.simps [simp del]

section \<open>Derived definitions\<close>

text \<open>
  The guarded divisions of \<open>generate\<close> never raise, and a ticker of \<open>latest_map\<close> always
  has a sample (both shown below); the values they return are named here.
\<close>

definition pct_value :: "real \<Rightarrow> real \<Rightarrow> real" where
  "pct_value c1 c0 = (if c0 \<noteq> 0 then (c1 - c0) / c0 * 100 else 0)"

definition range_value :: "real \<Rightarrow> real list \<Rightarrow> real \<times> real \<times> real" where
  "range_value c1 cs = (case range_stats c1 cs of Inr r \<Rightarrow> r | Inl _ \<Rightarrow> (c1, c1, 1 / 2))"

definition block_of :: "env \<Rightarrow> pystr \<Rightarrow> pystr \<Rightarrow> price_item list \<Rightarrow> pystr list" where
  "block_of e report_date t items =
     (case ticker_block e report_date t items of Inr b \<Rightarrow> b | Inl _ \<Rightarrow> [])"

text \<open>
  The store behind the queries. The first query returns all rows by ticker and, within a
  ticker, by decreasing date; the closes query returns the closes of one ticker by
  decreasing date, at most 20. A ticker has one row per date (the key of the table's
  \<open>ON CONFLICT(ticker, date)\<close>), so on one store the second is the first restricted to the
  ticker and cut at 20: this is \<open>same_store\<close>.
\<close>

definition rows_of :: "pystr \<Rightarrow> price_row list \<Rightarrow> price_row list" where
  "rows_of t rows = filter (\<lambda>r. fst r = t) rows"

definition sample_of :: "price_row \<Rightarrow> price_item" where
  "sample_of r = (case r of (t, d, c, v) \<Rightarrow>
     (d, (case c of None \<Rightarrow> 0 | Some x \<Rightarrow> x), (case v of None \<Rightarrow> 0 | Some n \<Rightarrow> n)))"

definition same_store :: "env \<Rightarrow> price_row list \<Rightarrow> bool" where
  "same_store e rows =
     (\<forall>t \<in> set (map fst rows).
        close_rows e t = take 20 (map (\<lambda>r. fst (snd (snd r))) (rows_of t rows)))"

definition line_index :: "pystr \<Rightarrow> pystr list \<Rightarrow> nat" where
  \<comment> \<open>the position of the first line that starts with \<open>p\<close>\<close>
  "line_index p ls = length (takeWhile (\<lambda>l. \<not> startswith l p) ls)"

subsection \<open>Example stores\<close>

definition acme_env :: env where
  "acme_env = \<lparr>news_rows = (\<lambda>t. []), close_rows = (\<lambda>t. [Some (21 / 2), Some 10]),
     summarize = (\<lambda>a. Inr (lit ''Up on no news.'')), iso_short = (\<lambda>s. s),
     today = lit ''2026-01-12''\<rparr>"

definition acme_rows :: "price_row list" where
  "acme_rows = [(lit ''ACME'', lit ''2026-01-11'', Some (21 / 2), Some 100000),
                (lit ''ACME'', lit ''2026-01-10'', Some 10, Some 90000)]"

definition acme_items :: "price_item list" where
  "acme_items = [(lit ''2026-01-11'', 21 / 2, 100000), (lit ''2026-01-10'', 10, 90000)]"

definition failing_env :: env where
  "failing_env = acme_env\<lparr>summarize :=
     (\<lambda>a. if arg_ticker a = lit ''ACME'' then Inl (lit ''timeout'') else Inr (lit ''Flat.''))\<rparr>"

definition two_rows :: "price_row list" where
  "two_rows = acme_rows @ [(lit ''BETA'', lit ''2026-01-11'', Some 4, None),
                          (lit ''BETA'', lit ''2026-01-10'', Some 4, Some 12)]"

definition lone_rows :: "price_row list" where
  "lone_rows = [(lit ''SOLO'', lit ''2026-01-11'', Some 3, Some 1200)]"

definition solo_env :: env where
  "solo_env = acme_env\<lparr>close_rows := (\<lambda>t. [Some 3])\<rparr>"

section \<open>Definitions for the claims on the parser\<close>

text \<open>
  A line as \<open>splitlines\<close> returns it has no line break in it. The three header shapes are
  named; \<open>unknown_shape\<close> says that a line has none of the prefixes and bullet shapes
  that \<open>parse_report\<close> tests.
\<close>

definition clean :: "pystr \<Rightarrow> bool" where
  "clean l = (\<forall>c \<in> set l. \<not> is_linebreak c)"

definition is_title_line :: "pystr \<Rightarrow> bool" where
  "is_title_line l = startswith l (lit ''# '')"

definition is_meta_line :: "pystr \<Rightarrow> bool" where
  "is_meta_line l = startswith l (lit ''## '')"

definition is_header :: "pystr \<Rightarrow> bool" where
  "is_header l = startswith l (lit ''### '')"

definition unknown_shape :: "pystr \<Rightarrow> bool" where
  "unknown_shape l =
     (\<not> is_title_line l \<and> \<not> is_meta_line l \<and> \<not> is_header l
      \<and> \<not> startswith l (lit ''- Date:'') \<and> \<not> startswith l (lit ''- Close:'')
      \<and> \<not> startswith l (lit ''- Volume:'') \<and> \<not> startswith l (lit ''- 20D Range:'')
      \<and> \<not> startswith l (lit ''- News'') \<and> \<not> startswith l (lit ''- AI Summary:'')
      \<and> \<not> startswith l (lit ''- Summary:'') \<and> \<not> bullet2 l \<and> \<not> bullet4 l)"

definition mode_after :: "pystr \<Rightarrow> mode" where
  "mode_after a = mode (foldl step init_state (splitlines a))"

text \<open>
  What the source does with the title and the meta line: every \<open># \<close> line sets the
  title again, so the last one stays; the meta line is set while it is still empty, by a
  \<open>## \<close> line anywhere in the text.
\<close>

definition last_title :: "pystr list \<Rightarrow> pystr" where
  "last_title ls = (case rev (filter is_title_line ls) of [] \<Rightarrow> [] | l # _ \<Rightarrow> strip (drop 2 l))"

definition first_meta :: "pystr list \<Rightarrow> pystr" where
  "first_meta ls =
     (case filter (\<lambda>l. is_meta_line l \<and> strip (drop 3 l) \<noteq> []) ls of
        [] \<Rightarrow> [] | l # _ \<Rightarrow> strip (drop 3 l))"

text \<open>
  What the specification says instead: the title is taken from the first \<open># \<close> line, the
  meta line from the first \<open>## \<close> line among the lines before the first \<open>### \<close> line;
  and of several blocks that declare one symbol the last one wins.
\<close>

definition spec_title :: "pystr list \<Rightarrow> pystr" where
  "spec_title ls = (case filter is_title_line ls of [] \<Rightarrow> [] | l # _ \<Rightarrow> strip (drop 2 l))"

definition spec_meta :: "pystr list \<Rightarrow> pystr" where
  "spec_meta ls =
     (case filter is_meta_line (takeWhile (\<lambda>l. \<not> is_header l) ls) of
        [] \<Rightarrow> [] | l # _ \<Rightarrow> strip (drop 3 l))"

definition last_wins :: "report_section list \<Rightarrow> report_section list" where
  "last_wins secs = map snd (filter (\<lambda>(i, s). ticker s \<notin> ticker ` set (drop (Suc i) secs))
                                    (zip [0..<length secs] secs))"

subsection \<open>Example texts\<close>

definition head_text :: pystr where
  "head_text = join_nl [lit ''# '' @ lit ''A'', lit ''### '' @ lit ''S'', lit ''## '' @ lit ''M'',
                        lit ''# '' @ lit ''B'']"

definition dup_head :: pystr where
  "dup_head = join_nl [lit ''### '' @ lit ''A'', lit ''- Date: '' @ lit ''1'']"

definition dup_tail :: pystr where
  "dup_tail = join_nl [lit ''### '' @ lit ''A'', lit ''- Date: '' @ lit ''2'']"

definition note_head :: pystr where
  "note_head = join_nl [lit ''### '' @ lit ''A'', lit ''- Summary:'', lit ''  - '' @ lit ''x'']"

section \<open>Definitions for the round trip\<close>


definition range_text :: "real \<times> real \<times> real \<Rightarrow> pystr" where
  "range_text r = (case r of (lo, hi, pos) \<Rightarrow>
     lit ''low '' @ fmt2 lo @ lit '', high '' @ fmt2 hi @ lit '', position '' @ fmt2 pos)"

definition narrative :: "env \<Rightarrow> pystr \<Rightarrow> pystr \<Rightarrow> price_item list \<Rightarrow> pystr" where
  "narrative e rd t items =
     (case items of
        (d1, c1, v1) # (d0, c0, v0) # _ \<Rightarrow>
          (let rv = range_value c1 (closes_20 (close_rows e t))
           in case summarize e (rd, t, d0, d1, c0, c1, pct_value c1 c0, v1,
                                fst rv, fst (snd rv), snd (snd rv),
                                map (news_dict_of e) (news_rows e t)) of
                Inr txt \<Rightarrow> txt
              | Inl msg \<Rightarrow> lit ''(Error: '' @ msg @ lit '')'')
      | _ \<Rightarrow> lit ''(need at least 2 trading days of price data)'')"


















subsection \<open>Example stores for the round trip\<close>






section \<open>The parser is total\<close>

lemma after_colon_has:
  "58 \<in> set s \<Longrightarrow> after_colon s = Inr (strip (tl (dropWhile (\<lambda>c. c \<noteq> 58) s)))"
  by (auto simp: after_colon_def index1_def split1_def Let_def)

lemma startswith_set: "startswith s p \<Longrightarrow> c \<in> set p \<Longrightarrow> c \<in> set s"
  unfolding startswith_def by (auto simp: prefix_def)

lemma summary_has_colon: "lower_startswith_summary txt \<Longrightarrow> 58 \<in> set txt"
proof -
  assume "lower_startswith_summary txt"
  then have "map ascii_lower (take 8 txt) = [115, 117, 109, 109, 97, 114, 121, 58]"
    unfolding lower_startswith_summary_def lit_def by simp
  then have "58 \<in> set (map ascii_lower (take 8 txt))" by simp
  then obtain c where c: "c \<in> set (take 8 txt)" "ascii_lower c = 58" by auto
  then have "c = 58" by (auto simp: ascii_lower_def split: if_splits)
  with c show ?thesis by (auto dest: in_set_takeD)
qed

lemma colon_in_prefixes:
  "58 \<in> set (lit ''- Date:'')" "58 \<in> set (lit ''- Close:'')"
  "58 \<in> set (lit ''- Volume:'')" "58 \<in> set (lit ''- 20D Range:'')"
  by (simp_all add: lit_def)

lemma kv_line_total:
  "startswith l p \<Longrightarrow> 58 \<in> set p \<Longrightarrow> \<exists>st'. kv_line st cur k l = Inr st'"
  by (simp add: kv_line_def after_colon_has startswith_set)

lemma sub_bullet_total: "\<exists>st'. sub_bullet st cur l = Inr st'"
  by (simp add: sub_bullet_def Let_def after_colon_has summary_has_colon)

lemma section_line_total: "\<exists>st'. section_line st cur l = Inr st'"
  unfolding section_line_def Let_def
  using kv_line_total [OF _ colon_in_prefixes(1)] kv_line_total [OF _ colon_in_prefixes(2)]
    kv_line_total [OF _ colon_in_prefixes(3)] kv_line_total [OF _ colon_in_prefixes(4)]
  by (simp add: sub_bullet_total)

lemma parse_line_total: "\<exists>st'. parse_line st raw = Inr st'"
  unfolding parse_line_def Let_def
  by (simp add: section_line_total split: option.split)

lemma parse_line_step: "parse_line st raw = Inr (step st raw)"
  using parse_line_total [of st raw] by (auto simp: step_def)

lemma parse_lines_foldl: "parse_lines st ls = Inr (foldl step st ls)"
  by (induction ls arbitrary: st) (simp_all add: parse_line_step)

lemma parse_report_eq: "parse_report t = Inr (finish (foldl step init_state (splitlines t)))"
  by (simp add: parse_report_def parse_lines_foldl)

text \<open>
  Claim C8. For every input string, \<open>parse_report\<close> returns a report and raises no error:
  the two places where the source could raise, the index \<open>[1]\<close> after \<open>split(":", 1)\<close> on a
  key/value line and on a news summary line, are reached only with a colon in the string.
\<close>

theorem parse_report_total: "\<exists>r. parse_report md_text = Inr r"
  by (simp add: parse_report_eq)

section \<open>Facts about the generator\<close>

lemma pct_change_eq: "pct_change c1 c0 = Inr (pct_value c1 c0)"
  by (simp add: pct_change_def pct_value_def py_div_def)

lemma range_stats_total: "\<exists>r. range_stats c1 cs = Inr r"
proof (cases "range_stats c1 cs")
  case (Inl e)
  then have False
    by (cases cs) (auto simp: range_stats_def py_div_def Let_def split: if_splits)
  then show ?thesis ..
next
  case (Inr r)
  then show ?thesis by blast
qed

lemma range_stats_eq: "range_stats c1 cs = Inr (range_value c1 cs)"
  using range_stats_total [of c1 cs] by (auto simp: range_value_def)

lemma range_value_Nil: "range_value c1 [] = (c1, c1, 1 / 2)"
  by (simp add: range_value_def range_stats_def)

lemma range_value_Cons:
  "range_value c1 (x # xs) =
     (Min (set (x # xs)), Max (set (x # xs)),
      if Max (set (x # xs)) \<noteq> Min (set (x # xs))
      then (c1 - Min (set (x # xs))) / (Max (set (x # xs)) - Min (set (x # xs))) else 1 / 2)"
  by (simp only: range_value_def range_stats_def Max.set_eq_fold Min.set_eq_fold)
     (simp add: py_div_def Let_def)

lemma range_position_bounds:
  assumes "c1 \<in> set cs" and "range_value c1 cs = (lo, hi, pos)"
  shows "lo \<le> c1 \<and> c1 \<le> hi \<and> (hi \<noteq> lo \<longrightarrow> 0 \<le> pos \<and> pos \<le> 1) \<and> (hi = lo \<longrightarrow> pos = 1 / 2)"
proof -
  from assms(1) obtain x xs where cs: "cs = x # xs" by (cases cs) auto
  have lo: "lo = Min (set cs)" and hi: "hi = Max (set cs)"
    and pos: "pos = (if hi \<noteq> lo then (c1 - lo) / (hi - lo) else 1 / 2)"
    using assms(2) unfolding cs range_value_Cons by auto
  have a: "lo \<le> c1" using assms(1) lo by simp
  have b: "c1 \<le> hi" using assms(1) hi by simp
  show ?thesis
  proof (cases "hi = lo")
    case True
    then show ?thesis using a b pos by simp
  next
    case False
    then have "0 < hi - lo" using a b by simp
    then show ?thesis using a b pos False by (simp add: divide_le_eq_1)
  qed
qed

lemma dict_get_setdefault: "dict_get (setdefault m k) k' = dict_get m k'"
  by (auto simp: dict_get_def setdefault_def split: option.splits if_splits)

lemma map_of_dict_set: "map_of (dict_set k v m) = (map_of m)(k \<mapsto> v)"
  by (induction m) (auto simp: fun_eq_iff)

lemma dict_get_dict_set: "dict_get (dict_set k v m) k' = (if k' = k then v else dict_get m k')"
  by (simp add: dict_get_def map_of_dict_set)

lemma fst_dict_set: "fst ` set (dict_set k v m) = insert k (fst ` set m)"
  using arg_cong [OF map_of_dict_set [of k v m], of dom]
  by (simp add: dom_map_of_conv_image_fst)

lemma fst_setdefault: "fst ` set (setdefault m k) = insert k (fst ` set m)"
proof (cases "map_of m k")
  case None
  then show ?thesis by (simp add: setdefault_def)
next
  case (Some a)
  then have "k \<in> fst ` set m" by (metis domI dom_map_of_conv_image_fst)
  with Some show ?thesis by (auto simp: setdefault_def)
qed

lemma build_dict_get:
  "build_latest_map m0 rows = Inr m \<Longrightarrow>
   dict_get m t = dict_get m0 t @ map sample_of (take (2 - length (dict_get m0 t)) (rows_of t rows))
   \<and> (\<forall>r \<in> set (take (2 - length (dict_get m0 t)) (rows_of t rows)). fst (snd (snd r)) \<noteq> None)"
proof (induction rows arbitrary: m0)
  case Nil
  then show ?case by (simp add: rows_of_def)
next
  case (Cons r rs)
  obtain t' d c v where r: "r = (t', d, c, v)" by (cases r) auto
  from Cons.prems obtain m1 where m1: "add_row m0 r = Inr m1" and rest: "build_latest_map m1 rs = Inr m"
    by (auto split: sum.splits)
  note IH = Cons.IH [OF rest]
  show ?case
  proof (cases "t' = t")
    case False
    then have "dict_get m1 t = dict_get m0 t"
      using m1 unfolding r
      by (auto simp: Let_def dict_get_setdefault dict_get_dict_set split: if_splits option.splits)
    then show ?thesis using IH False by (simp add: rows_of_def r)
  next
    case True
    show ?thesis
    proof (cases "length (dict_get m0 t) < 2")
      case False
      then have "dict_get m1 t = dict_get m0 t"
        using m1 True unfolding r
        by (auto simp: Let_def dict_get_setdefault dict_get_dict_set split: if_splits option.splits)
      then show ?thesis using IH False by simp
    next
      case lt: True
      then obtain x where c: "c = Some x"
        and g: "dict_get m1 t = dict_get m0 t @ [sample_of r]"
        using m1 True unfolding r
        by (auto simp: Let_def dict_get_setdefault dict_get_dict_set sample_of_def
                 split: if_splits option.splits)
      have tk: "take (2 - length (dict_get m0 t)) (rows_of t (r # rs))
                = r # take (2 - length (dict_get m1 t)) (rows_of t rs)"
        using lt True g by (simp add: rows_of_def r take_Cons')
      show ?thesis unfolding tk using IH g c by (simp add: r)
    qed
  qed
qed

lemma build_keys:
  "build_latest_map m0 rows = Inr m \<Longrightarrow> fst ` set m = fst ` set m0 \<union> fst ` set rows"
proof (induction rows arbitrary: m0)
  case Nil
  then show ?case by simp
next
  case (Cons r rs)
  obtain t' d c v where r: "r = (t', d, c, v)" by (cases r) auto
  from Cons.prems obtain m1 where m1: "add_row m0 r = Inr m1" and rest: "build_latest_map m1 rs = Inr m"
    by (auto split: sum.splits)
  have "fst ` set m1 = insert t' (fst ` set m0)"
  proof (cases "length (dict_get (setdefault m0 t') t') < 2")
    case True
    then obtain its where "m1 = dict_set t' its (setdefault m0 t')"
      using m1 unfolding r by (cases c) (auto simp: Let_def)
    then show ?thesis by (simp add: fst_dict_set fst_setdefault)
  next
    case False
    then have "m1 = setdefault m0 t'" using m1 unfolding r by (simp add: Let_def)
    then show ?thesis by (simp add: fst_setdefault)
  qed
  with Cons.IH [OF rest] show ?case by (auto simp: r)
qed

lemma build_total:
  "\<forall>r \<in> set rows. fst (snd (snd r)) \<noteq> None \<Longrightarrow> \<exists>m. build_latest_map m0 rows = Inr m"
proof (induction rows arbitrary: m0)
  case Nil
  then show ?case by simp
next
  case (Cons r rs)
  obtain t' d c v where r: "r = (t', d, c, v)" by (cases r) auto
  with Cons.prems obtain x where "c = Some x" by auto
  then have "\<exists>m1. add_row m0 r = Inr m1" by (simp add: r Let_def)
  then obtain m1 where "add_row m0 r = Inr m1" ..
  with Cons show ?case by auto
qed

lemma price_lines_two:
  "price_lines ((d1, c1, v1) # (d0, c0, v0) # rest) =
     Inr (d0, c0, Some (pct_value c1 c0),
          [lit ''- Date: '' @ d0 @ arrow @ d1,
           lit ''- Close: '' @ fmt2 c0 @ arrow @ fmt2 c1 @ lit '' ('' @ fmt2_signed (pct_value c1 c0) @ lit ''%)'',
           lit ''- Volume: '' @ fmt_commas v1])"
  by (simp add: price_lines_def pct_change_eq)

lemma price_lines_one:
  "price_lines [(d1, c1, v1)] =
     Inr (d1, c1, None,
          [lit ''- Latest: '' @ d1 @ lit '' | Close: '' @ fmt2 c1 @ lit '' | Vol: '' @ fmt_commas v1])"
  by (simp add: price_lines_def)

lemma ticker_block_two:
  "ticker_block e rd t ((d1, c1, v1) # (d0, c0, v0) # rest) =
     Inr ([lit ''### '' @ t,
           lit ''- Date: '' @ d0 @ arrow @ d1,
           lit ''- Close: '' @ fmt2 c0 @ arrow @ fmt2 c1 @ lit '' ('' @ fmt2_signed (pct_value c1 c0) @ lit ''%)'',
           lit ''- Volume: '' @ fmt_commas v1]
          @ news_block (map (news_dict_of e) (news_rows e t))
          @ [range_line (range_value c1 (closes_20 (close_rows e t)))]
          @ summary_lines e (Some (pct_value c1 c0))
              (\<lambda>p. (rd, t, d0, d1, c0, c1, p, v1,
                    fst (range_value c1 (closes_20 (close_rows e t))),
                    fst (snd (range_value c1 (closes_20 (close_rows e t)))),
                    snd (snd (range_value c1 (closes_20 (close_rows e t)))),
                    map (news_dict_of e) (news_rows e t)))
          @ [[]])"
  unfolding ticker_block_def price_lines_two range_stats_eq
  by (simp add: Let_def split: prod.split)

lemma ticker_block_one:
  "ticker_block e rd t [(d1, c1, v1)] =
     Inr ([lit ''### '' @ t,
           lit ''- Latest: '' @ d1 @ lit '' | Close: '' @ fmt2 c1 @ lit '' | Vol: '' @ fmt_commas v1]
          @ news_block (map (news_dict_of e) (news_rows e t))
          @ [range_line (range_value c1 (closes_20 (close_rows e t))),
             lit ''- Summary:'',
             lit ''  - (need at least 2 trading days of price data)'',
             []])"
  unfolding ticker_block_def price_lines_one range_stats_eq
  by (simp add: Let_def summary_lines_def split: prod.split)

lemma ticker_block_ok: "items \<noteq> [] \<Longrightarrow> ticker_block e rd t items = Inr (block_of e rd t items)"
proof -
  assume "items \<noteq> []"
  then consider d1 c1 v1 where "items = [(d1, c1, v1)]"
    | d1 c1 v1 d0 c0 v0 rest where "items = (d1, c1, v1) # (d0, c0, v0) # rest"
    by (cases items; cases "tl items") auto
  then show ?thesis
    by cases (simp_all only: block_of_def ticker_block_one ticker_block_two sum.case)
qed

lemma ticker_blocks_ok:
  "\<forall>t \<in> set ts. dict_get m t \<noteq> [] \<Longrightarrow>
   ticker_blocks e rd m ts = Inr (concat (map (\<lambda>t. block_of e rd t (dict_get m t)) ts))"
  by (induction ts) (simp_all add: ticker_block_ok)

lemma build_items_nonempty:
  assumes "build_latest_map [] rows = Inr m" and "t \<in> fst ` set m"
  shows "dict_get m t \<noteq> []"
proof -
  have "t \<in> fst ` set rows" using build_keys [OF assms(1)] assms(2) by simp
  then have "rows_of t rows \<noteq> []" by (auto simp: rows_of_def filter_empty_conv)
  moreover have "dict_get m t = map sample_of (take 2 (rows_of t rows))"
    using build_dict_get [OF assms(1), of t] by (simp add: dict_get_def)
  ultimately show ?thesis by (cases "rows_of t rows") auto
qed

lemma report_lines_ok:
  assumes "build_latest_map [] rows = Inr m"
  shows "report_lines e rows =
           Inr (title_line (report_date_of e m)
                  # concat (map (\<lambda>t. block_of e (report_date_of e m) t (dict_get m t))
                               (sort (map fst m))),
                report_date_of e m)"
proof -
  have "\<forall>t \<in> set (sort (map fst m)). dict_get m t \<noteq> []"
    using build_items_nonempty [OF assms] by simp
  then show ?thesis
    by (simp add: report_lines_def assms Let_def ticker_blocks_ok)
qed

lemma block_in_report:
  assumes "build_latest_map [] rows = Inr m" and "t \<in> fst ` set rows"
  shows "\<exists>pre post. report_lines e rows =
           Inr (pre @ block_of e (report_date_of e m) t (dict_get m t) @ post, report_date_of e m)"
proof -
  have "t \<in> set (sort (map fst m))" using build_keys [OF assms(1)] assms(2) by simp
  then obtain ts1 ts2 where ts: "sort (map fst m) = ts1 @ t # ts2" by (meson split_list)
  let ?f = "\<lambda>t. block_of e (report_date_of e m) t (dict_get m t)"
  have "report_lines e rows =
          Inr ((title_line (report_date_of e m) # concat (map ?f ts1)) @ ?f t @ concat (map ?f ts2),
               report_date_of e m)"
    unfolding report_lines_ok [OF assms(1)] ts by simp
  then show ?thesis by blast
qed

lemma fixed2_zero: "fixed2 0 = lit ''0.00''"
  by (simp add: fixed2_def round_half_even_def lit_def digits.simps)

lemma news_item_lines_space: "l \<in> set (news_item_lines n) \<Longrightarrow> \<exists>r. l = 32 # r"
  by (cases n) (auto simp: news_item_lines_def lit_def split: if_splits)

lemma news_block_not_range: "l \<in> set (news_block ns) \<Longrightarrow> \<not> startswith l (lit ''- 20D Range:'')"
  by (auto simp: news_block_def startswith_def lit_def dest!: news_item_lines_space split: if_splits)

lemma news_block_length: "2 \<le> length (news_block ns)"
proof (cases ns)
  case Nil
  then show ?thesis by (simp add: news_block_def)
next
  case (Cons n ns')
  obtain p s h su u where "n = (p, s, h, su, u)" by (cases n) auto
  then show ?thesis using Cons by (simp add: news_block_def news_item_lines_def)
qed

lemma startswith_Cons: "startswith l (a # p) \<longleftrightarrow> (\<exists>r. l = a # r \<and> startswith r p)"
  by (cases l) (auto simp: startswith_def)


lemma startswith_simps:
  "startswith l []"
  "\<not> startswith [] (b # p)"
  "startswith (a # r) (b # p) \<longleftrightarrow> a = b \<and> startswith r p"
  by (auto simp: startswith_def)

lemma range_line_text: "range_line r = lit ''- 20D Range: '' @ range_text r"
  by (cases r) (simp add: range_line_def range_text_def lit_def)

lemma block_two:
  "block_of e rd t ((d1, c1, v1) # (d0, c0, v0) # rest) =
     [lit ''### '' @ t,
      lit ''- Date: '' @ (d0 @ arrow @ d1),
      lit ''- Close: '' @ (fmt2 c0 @ arrow @ fmt2 c1 @ lit '' ('' @ fmt2_signed (pct_value c1 c0) @ lit ''%)''),
      lit ''- Volume: '' @ fmt_commas v1]
     @ news_block (map (news_dict_of e) (news_rows e t))
     @ [lit ''- 20D Range: '' @ range_text (range_value c1 (closes_20 (close_rows e t))),
        lit ''- Summary:'',
        lit ''  - '' @ narrative e rd t ((d1, c1, v1) # (d0, c0, v0) # rest),
        []]"
proof -
  have "lit ''  - (Error: '' @ msg @ lit '')'' = lit ''  - '' @ (lit ''(Error: '' @ msg @ lit '')'')" for msg
    by (simp add: lit_def)
  then show ?thesis
    by (simp add: block_of_def ticker_block_two summary_lines_def narrative_def range_line_text
          Let_def split: sum.split)
qed


lemma news_item_lines_bullets:
  "l \<in> set (news_item_lines n) \<Longrightarrow> startswith l (lit ''  - '') \<or> startswith l (lit ''    - '')"
  by (cases n) (auto simp: news_item_lines_def lit_def startswith_simps split: if_splits)

lemma news_block_shape:
  "\<exists>bullets. news_block ns = lit ''- News (headline + summary):'' # bullets \<and> bullets \<noteq> []
     \<and> (\<forall>l \<in> set bullets. startswith l (lit ''  - '') \<or> startswith l (lit ''    - ''))"
proof (cases ns)
  case Nil
  then show ?thesis by (simp add: news_block_def lit_def startswith_simps)
next
  case (Cons n ns')
  obtain p s h su u where n: "n = (p, s, h, su, u)" by (cases n) auto
  have ne: "concat (map news_item_lines ns) \<noteq> []"
    by (simp add: Cons n news_item_lines_def)
  have sh: "startswith l (lit ''  - '') \<or> startswith l (lit ''    - '')"
    if "l \<in> set (concat (map news_item_lines ns))" for l
  proof -
    from that obtain k where "l \<in> set (news_item_lines k)" by auto
    then show ?thesis by (rule news_item_lines_bullets)
  qed
  have "news_block ns = lit ''- News (headline + summary):'' # concat (map news_item_lines ns)"
    using Cons by (simp add: news_block_def)
  then show ?thesis using ne sh by blast
qed

subsection \<open>The example stores, evaluated\<close>

lemma acme_build: "build_latest_map [] acme_rows = Inr [(lit ''ACME'', acme_items)]"
  by (simp add: acme_rows_def acme_items_def setdefault_def dict_get_def Let_def)

lemma acme_range: "range_value (21 / 2) (closes_20 (close_rows acme_env t)) = (10, 21 / 2, 1)"
  by (simp add: range_value_def range_stats_def acme_env_def closes_20_def py_div_def Let_def)

lemma fmt_examples:
  "fmt2 10 = lit ''10.00''" "fmt2 (21 / 2) = lit ''10.50''" "fmt2 1 = lit ''1.00''"
  "fmt2_signed 5 = lit ''+5.00''" "fmt_commas 100000 = lit ''100,000''"
  by (simp_all add: fmt2_def fmt2_signed_def fixed2_def round_half_even_def digits.simps
        fmt_commas_def commas.simps lit_def)

lemma acme_block:
  "ticker_block acme_env (lit ''2026-01-11'') (lit ''ACME'') acme_items =
     Inr [lit ''### ACME'',
          lit ''- Date: 2026-01-10'' @ arrow @ lit ''2026-01-11'',
          lit ''- Close: 10.00'' @ arrow @ lit ''10.50 (+5.00%)'',
          lit ''- Volume: 100,000'',
          lit ''- News (headline + summary):'',
          lit ''  - (no recent news)'',
          lit ''- 20D Range: low 10.00, high 10.50, position 1.00'',
          lit ''- Summary:'',
          lit ''  - Up on no news.'',
          []]"
proof -
  have p: "pct_value (21 / 2) 10 = 5" by (simp add: pct_value_def)
  have n: "news_rows acme_env t = []" for t by (simp add: acme_env_def)
  have s: "summarize acme_env a = Inr (lit ''Up on no news.'')" for a by (simp add: acme_env_def)
  show ?thesis
    unfolding acme_items_def ticker_block_two acme_range p n
    by (simp add: fmt_examples news_block_def range_line_def summary_lines_def s)
       (simp add: lit_def)
qed

lemma two_rows_build:
  "build_latest_map [] two_rows =
     Inr [(lit ''ACME'', acme_items),
          (lit ''BETA'', [(lit ''2026-01-11'', 4, 0), (lit ''2026-01-10'', 4, 12)])]"
  by (simp add: two_rows_def acme_rows_def acme_items_def setdefault_def dict_get_def Let_def lit_def)

section \<open>Claims about the generator\<close>

text \<open>
  Claim C10. For a symbol with two samples whose prior close is 0, the percent change is
  0 and not a division by zero: \<open>pct_change\<close> returns 0, the lines of the symbol are
  produced, and the \<open>- Close:\<close> line shows \<open>+0.00%\<close>.
\<close>

theorem zero_prior_close:
  "pct_change c1 0 = Inr 0 \<and>
   (\<exists>b. ticker_block e rd t ((d1, c1, v1) # (d0, 0, v0) # rest) = Inr b \<and>
        lit ''- Close: 0.00'' @ arrow @ fmt2 c1 @ lit '' (+0.00%)'' \<in> set b)"
proof -
  have "fmt2_signed 0 = lit ''+0.00''" "fmt2 0 = lit ''0.00''"
    by (simp_all add: fmt2_signed_def fmt2_def fixed2_zero lit_def)
  moreover have "pct_value c1 0 = 0" by (simp add: pct_value_def)
  ultimately show ?thesis
    unfolding ticker_block_two pct_change_eq by (simp add: lit_def)
qed

theorem zero_prior_close_witness:
  "pct_change 5 0 = Inr 0 \<and>
   (\<exists>b. ticker_block acme_env (lit ''2026-01-11'') (lit ''ACME'')
          [(lit ''2026-01-11'', 5, 7), (lit ''2026-01-10'', 0, 3)] = Inr b \<and>
        lit ''- Close: 0.00'' @ arrow @ fmt2 5 @ lit '' (+0.00%)'' \<in> set b)"
  using zero_prior_close [of 5 acme_env "lit ''2026-01-11''" "lit ''ACME''" "lit ''2026-01-11''" 7
      "lit ''2026-01-10''" 3 "[]"]
  by simp

text \<open>
  Claim C7. A symbol with exactly one price sample has no percent change (\<open>pct\<close> is
  \<open>None\<close>); the run returns a report, and the symbol's lines in it are the header, the
  \<open>- Latest:\<close> line, the news, the range line and, under \<open>- Summary:\<close>, the placeholder
  \<open>(need at least 2 trading days of price data)\<close>: no \<open>- Close:\<close> line with a percent
  figure is written. The first hypothesis says that reading the rows raised nothing, which
  is so when the two latest rows of every ticker have a close.
\<close>

theorem single_sample_placeholder:
  assumes "build_latest_map [] rows = Inr m"
    and "rows_of t rows = [(t, d1, Some c1, v)]"
  shows "price_lines (dict_get m t) =
           Inr (d1, c1, None,
                [lit ''- Latest: '' @ d1 @ lit '' | Close: '' @ fmt2 c1 @ lit '' | Vol: ''
                   @ fmt_commas (case v of None \<Rightarrow> 0 | Some n \<Rightarrow> n)])
         \<and> (\<exists>pre post. report_lines e rows =
               Inr (pre
                    @ [lit ''### '' @ t,
                       lit ''- Latest: '' @ d1 @ lit '' | Close: '' @ fmt2 c1 @ lit '' | Vol: ''
                         @ fmt_commas (case v of None \<Rightarrow> 0 | Some n \<Rightarrow> n)]
                    @ news_block (map (news_dict_of e) (news_rows e t))
                    @ [range_line (range_value c1 (closes_20 (close_rows e t))),
                       lit ''- Summary:'',
                       lit ''  - (need at least 2 trading days of price data)'',
                       []]
                    @ post,
                    report_date_of e m))"
proof -
  have items: "dict_get m t = [(d1, c1, case v of None \<Rightarrow> 0 | Some n \<Rightarrow> n)]"
    using build_dict_get [OF assms(1), of t] assms(2)
    by (simp add: dict_get_def sample_of_def)
  have "t \<in> fst ` set rows"
  proof -
    have "(t, d1, Some c1, v) \<in> set (rows_of t rows)" using assms(2) by simp
    then show ?thesis by (force simp: rows_of_def)
  qed
  from block_in_report [OF assms(1) this, of e]
  show ?thesis
    unfolding items block_of_def ticker_block_one price_lines_one by simp
qed

theorem single_sample_placeholder_witness:
  "build_latest_map [] lone_rows = Inr [(lit ''SOLO'', [(lit ''2026-01-11'', 3, 1200)])]
   \<and> rows_of (lit ''SOLO'') lone_rows = [(lit ''SOLO'', lit ''2026-01-11'', Some 3, Some 1200)]
   \<and> price_lines (dict_get [(lit ''SOLO'', [(lit ''2026-01-11'', 3, 1200)])] (lit ''SOLO'')) =
           Inr (lit ''2026-01-11'', 3, None,
                [lit ''- Latest: '' @ lit ''2026-01-11'' @ lit '' | Close: '' @ fmt2 3 @ lit '' | Vol: ''
                   @ fmt_commas 1200])
   \<and> (\<exists>pre post. report_lines acme_env lone_rows =
               Inr (pre
                    @ [lit ''### '' @ lit ''SOLO'',
                       lit ''- Latest: '' @ lit ''2026-01-11'' @ lit '' | Close: '' @ fmt2 3 @ lit '' | Vol: ''
                         @ fmt_commas 1200]
                    @ news_block (map (news_dict_of acme_env) (news_rows acme_env (lit ''SOLO'')))
                    @ [range_line (range_value 3 (closes_20 (close_rows acme_env (lit ''SOLO'')))),
                       lit ''- Summary:'',
                       lit ''  - (need at least 2 trading days of price data)'',
                       []]
                    @ post,
                    report_date_of acme_env [(lit ''SOLO'', [(lit ''2026-01-11'', 3, 1200)])]))"
proof -
  have 1: "build_latest_map [] lone_rows = Inr [(lit ''SOLO'', [(lit ''2026-01-11'', 3, 1200)])]"
    by (simp add: lone_rows_def setdefault_def dict_get_def Let_def)
  have 2: "rows_of (lit ''SOLO'') lone_rows = [(lit ''SOLO'', lit ''2026-01-11'', Some 3, Some 1200)]"
    by (simp add: lone_rows_def rows_of_def)
  from single_sample_placeholder [OF 1 2, of acme_env]
  show ?thesis using 1 2 by simp
qed

text \<open>
  Claim C6, as the source has it. For a symbol with two samples the block is, line by
  line: the header, \<open>- Date:\<close>, \<open>- Close:\<close>, \<open>- Volume:\<close> (position 3), the line
  \<open>- News (headline + summary):\<close> (position 4) with the bullets of the news block (at
  least one, each indented by two or by four), and only after the whole news block the
  \<open>- 20D Range:\<close> line, then \<open>- Summary:\<close>, the narrative bullet and an empty line. The
  claim puts the range line before the news block; the example store shows the opposite
  order.
\<close>

theorem range_line_after_news:
  "\<exists>b bullets.
     ticker_block e rd t ((d1, c1, v1) # (d0, c0, v0) # rest) = Inr b
     \<and> b = [lit ''### '' @ t,
            lit ''- Date: '' @ (d0 @ arrow @ d1),
            lit ''- Close: '' @ (fmt2 c0 @ arrow @ fmt2 c1 @ lit '' ('' @ fmt2_signed (pct_value c1 c0) @ lit ''%)''),
            lit ''- Volume: '' @ fmt_commas v1,
            lit ''- News (headline + summary):'']
           @ bullets
           @ [lit ''- 20D Range: '' @ range_text (range_value c1 (closes_20 (close_rows e t))),
              lit ''- Summary:'',
              lit ''  - '' @ narrative e rd t ((d1, c1, v1) # (d0, c0, v0) # rest),
              []]
     \<and> lit ''- News (headline + summary):'' # bullets = news_block (map (news_dict_of e) (news_rows e t))
     \<and> bullets \<noteq> []
     \<and> (\<forall>l \<in> set bullets. startswith l (lit ''  - '') \<or> startswith l (lit ''    - ''))
     \<and> line_index (lit ''- Volume:'') b = 3
     \<and> line_index (lit ''- News'') b = 4
     \<and> line_index (lit ''- 20D Range:'') b = 5 + length bullets
     \<and> line_index (lit ''- News'') b < line_index (lit ''- 20D Range:'') b
     \<and> line_index (lit ''- 20D Range:'') b < length b"
proof -
  let ?items = "(d1, c1, v1) # (d0, c0, v0) # rest"
  obtain bullets where nb: "news_block (map (news_dict_of e) (news_rows e t))
        = lit ''- News (headline + summary):'' # bullets"
    and ne: "bullets \<noteq> []"
    and sh: "\<forall>l \<in> set bullets. startswith l (lit ''  - '') \<or> startswith l (lit ''    - '')"
    using news_block_shape by blast
  have nr: "\<not> startswith l (lit ''- 20D Range:'')" if "l \<in> set bullets" for l
    using sh that by (auto simp: lit_def startswith_Cons)
  have tw: "takeWhile (\<lambda>l. \<not> startswith l (lit ''- 20D Range:'')) (bullets @ ys) =
            bullets @ takeWhile (\<lambda>l. \<not> startswith l (lit ''- 20D Range:'')) ys" for ys
    by (rule takeWhile_append2) (rule nr)
  have tb: "ticker_block e rd t ?items = Inr (block_of e rd t ?items)"
    by (rule ticker_block_ok) simp
  let ?b = "[lit ''### '' @ t,
            lit ''- Date: '' @ (d0 @ arrow @ d1),
            lit ''- Close: '' @ (fmt2 c0 @ arrow @ fmt2 c1 @ lit '' ('' @ fmt2_signed (pct_value c1 c0) @ lit ''%)''),
            lit ''- Volume: '' @ fmt_commas v1,
            lit ''- News (headline + summary):'']
           @ bullets
           @ [lit ''- 20D Range: '' @ range_text (range_value c1 (closes_20 (close_rows e t))),
              lit ''- Summary:'',
              lit ''  - '' @ narrative e rd t ?items,
              []]"
  have b: "block_of e rd t ?items = ?b"
    unfolding block_two nb by simp
  have i1: "line_index (lit ''- Volume:'') ?b = 3"
    by (simp add: line_index_def startswith_def lit_def)
  have i2: "line_index (lit ''- News'') ?b = 4"
    by (simp add: line_index_def startswith_def lit_def)
  have i3: "line_index (lit ''- 20D Range:'') ?b = 5 + length bullets"
    unfolding line_index_def
    by (simp add: tw) (simp add: startswith_def lit_def)
  show ?thesis
    using tb b nb ne sh i1 i2 i3 by (intro exI [of _ ?b] exI [of _ bullets]) simp
qed

theorem range_line_after_news_witness:
  "\<exists>b bullets.
     ticker_block acme_env (lit ''2026-01-11'') (lit ''ACME'') acme_items = Inr b
     \<and> b = [lit ''### '' @ lit ''ACME'',
            lit ''- Date: '' @ (lit ''2026-01-10'' @ arrow @ lit ''2026-01-11''),
            lit ''- Close: '' @ (fmt2 10 @ arrow @ fmt2 (21 / 2) @ lit '' (''
               @ fmt2_signed (pct_value (21 / 2) 10) @ lit ''%)''),
            lit ''- Volume: '' @ fmt_commas 100000,
            lit ''- News (headline + summary):'']
           @ bullets
           @ [lit ''- 20D Range: '' @ range_text (10, 21 / 2, 1),
              lit ''- Summary:'',
              lit ''  - '' @ lit ''Up on no news.'',
              []]
     \<and> bullets = [lit ''  - (no recent news)'']
     \<and> startswith (lit ''  - (no recent news)'') (lit ''  - '')
     \<and> line_index (lit ''- Volume:'') b = 3
     \<and> line_index (lit ''- News'') b = 4
     \<and> line_index (lit ''- 20D Range:'') b = 6
     \<and> line_index (lit ''- News'') b < line_index (lit ''- 20D Range:'') b
     \<and> line_index (lit ''- 20D Range:'') b < length b"
proof -
  have n: "news_block (map (news_dict_of acme_env) (news_rows acme_env (lit ''ACME'')))
           = [lit ''- News (headline + summary):'', lit ''  - (no recent news)'']"
    by (simp add: acme_env_def news_block_def)
  from range_line_after_news [of acme_env "lit ''2026-01-11''" "lit ''ACME''" "lit ''2026-01-11''"
      "21 / 2" 100000 "lit ''2026-01-10''" 10 90000 "[]"]
  obtain b bullets where
    1: "ticker_block acme_env (lit ''2026-01-11'') (lit ''ACME'')
          [(lit ''2026-01-11'', 21 / 2, 100000), (lit ''2026-01-10'', 10, 90000)] = Inr b"
    and 2: "b = [lit ''### '' @ lit ''ACME'',
            lit ''- Date: '' @ (lit ''2026-01-10'' @ arrow @ lit ''2026-01-11''),
            lit ''- Close: '' @ (fmt2 10 @ arrow @ fmt2 (21 / 2) @ lit '' (''
               @ fmt2_signed (pct_value (21 / 2) 10) @ lit ''%)''),
            lit ''- Volume: '' @ fmt_commas 100000,
            lit ''- News (headline + summary):'']
           @ bullets
           @ [lit ''- 20D Range: '' @ range_text (range_value (21 / 2) (closes_20 (close_rows acme_env (lit ''ACME'')))),
              lit ''- Summary:'',
              lit ''  - '' @ narrative acme_env (lit ''2026-01-11'') (lit ''ACME'')
                 [(lit ''2026-01-11'', 21 / 2, 100000), (lit ''2026-01-10'', 10, 90000)],
              []]"
    and 3: "lit ''- News (headline + summary):'' # bullets
            = news_block (map (news_dict_of acme_env) (news_rows acme_env (lit ''ACME'')))"
    and 4: "\<forall>l \<in> set bullets. startswith l (lit ''  - '') \<or> startswith l (lit ''    - '')"
    and 5: "line_index (lit ''- Volume:'') b = 3" "line_index (lit ''- News'') b = 4"
      "line_index (lit ''- 20D Range:'') b = 5 + length bullets"
      "line_index (lit ''- 20D Range:'') b < length b"
    by blast
  from 3 have bl: "bullets = [lit ''  - (no recent news)'']" unfolding n by simp
  have nar: "narrative acme_env (lit ''2026-01-11'') (lit ''ACME'')
               [(lit ''2026-01-11'', 21 / 2, 100000), (lit ''2026-01-10'', 10, 90000)]
             = lit ''Up on no news.''"
    by (simp add: narrative_def acme_env_def Let_def)
  show ?thesis
    using 1 2 4 5 bl
    by (intro exI [of _ b] exI [of _ bullets])
       (simp add: acme_items_def acme_range nar, simp add: lit_def startswith_simps)
qed

theorem range_line_before_news_counterexample:
  "ticker_block acme_env (lit ''2026-01-11'') (lit ''ACME'') acme_items =
     Inr [lit ''### ACME'',
          lit ''- Date: 2026-01-10'' @ arrow @ lit ''2026-01-11'',
          lit ''- Close: 10.00'' @ arrow @ lit ''10.50 (+5.00%)'',
          lit ''- Volume: 100,000'',
          lit ''- News (headline + summary):'',
          lit ''  - (no recent news)'',
          lit ''- 20D Range: low 10.00, high 10.50, position 1.00'',
          lit ''- Summary:'',
          lit ''  - Up on no news.'',
          []]
   \<and> \<not> line_index (lit ''- 20D Range:'')
         [lit ''### ACME'',
          lit ''- Date: 2026-01-10'' @ arrow @ lit ''2026-01-11'',
          lit ''- Close: 10.00'' @ arrow @ lit ''10.50 (+5.00%)'',
          lit ''- Volume: 100,000'',
          lit ''- News (headline + summary):'',
          lit ''  - (no recent news)'',
          lit ''- 20D Range: low 10.00, high 10.50, position 1.00'',
          lit ''- Summary:'',
          lit ''  - Up on no news.'',
          []]
       < line_index (lit ''- News'')
         [lit ''### ACME'',
          lit ''- Date: 2026-01-10'' @ arrow @ lit ''2026-01-11'',
          lit ''- Close: 10.00'' @ arrow @ lit ''10.50 (+5.00%)'',
          lit ''- Volume: 100,000'',
          lit ''- News (headline + summary):'',
          lit ''  - (no recent news)'',
          lit ''- 20D Range: low 10.00, high 10.50, position 1.00'',
          lit ''- Summary:'',
          lit ''  - Up on no news.'',
          []]"
  by (simp only: acme_block simp_thms) (simp add: line_index_def startswith_def lit_def)

text \<open>
  Claim C9. If \<open>summarize\<close> raises for the symbol \<open>x\<close> (which has two samples, so that
  \<open>summarize\<close> is called for it), the run still returns the report: the title line and, for
  every ticker in sorted order, its block. The block of \<open>x\<close> carries the line
  \<open>(Error: msg)\<close> under \<open>- Summary:\<close>; the block of every other symbol is the one
  produced with any collaborator that behaves the same on the other symbols.
\<close>

theorem narrative_failure_is_local:
  assumes "build_latest_map [] rows = Inr m"
    and "dict_get m x = (d1, c1, v1) # (d0, c0, v0) # rest"
    and "\<And>a. arg_ticker a = x \<Longrightarrow> summarize e a = Inl msg"
  shows "x \<in> set (sort (map fst m))
         \<and> report_lines e rows =
             Inr (title_line (report_date_of e m)
                  # concat (map (\<lambda>y. if y = x then
                        [lit ''### '' @ x,
                         lit ''- Date: '' @ d0 @ arrow @ d1,
                         lit ''- Close: '' @ fmt2 c0 @ arrow @ fmt2 c1 @ lit '' (''
                           @ fmt2_signed (pct_value c1 c0) @ lit ''%)'',
                         lit ''- Volume: '' @ fmt_commas v1]
                        @ news_block (map (news_dict_of e) (news_rows e x))
                        @ [range_line (range_value c1 (closes_20 (close_rows e x))),
                           lit ''- Summary:'',
                           lit ''  - (Error: '' @ msg @ lit '')'',
                           []]
                      else block_of e (report_date_of e m) y (dict_get m y))
                    (sort (map fst m))),
                  report_date_of e m)
         \<and> (\<forall>f y. y \<noteq> x \<longrightarrow> (\<forall>a. arg_ticker a \<noteq> x \<longrightarrow> f a = summarize e a) \<longrightarrow>
               block_of (e\<lparr>summarize := f\<rparr>) (report_date_of e m) y (dict_get m y)
               = block_of e (report_date_of e m) y (dict_get m y))"
proof -
  have x: "x \<in> fst ` set m"
  proof (rule ccontr)
    assume "x \<notin> fst ` set m"
    then have "map_of m x = None" by (simp add: map_of_eq_None_iff)
    then show False using assms(2) by (simp add: dict_get_def)
  qed
  have s: "summary_lines e (Some p) (\<lambda>p. (rd, x, rr p))
           = [lit ''- Summary:'', lit ''  - (Error: '' @ msg @ lit '')'']" for p rd rr
    by (simp add: summary_lines_def assms(3) arg_ticker_def)
  have 1: "block_of e rd x (dict_get m x) =
             [lit ''### '' @ x,
              lit ''- Date: '' @ d0 @ arrow @ d1,
              lit ''- Close: '' @ fmt2 c0 @ arrow @ fmt2 c1 @ lit '' (''
                @ fmt2_signed (pct_value c1 c0) @ lit ''%)'',
              lit ''- Volume: '' @ fmt_commas v1]
             @ news_block (map (news_dict_of e) (news_rows e x))
             @ [range_line (range_value c1 (closes_20 (close_rows e x))),
                lit ''- Summary:'',
                lit ''  - (Error: '' @ msg @ lit '')'',
                []]" for rd
    by (simp add: assms(2) block_of_def ticker_block_two s)
  have 2: "block_of (e\<lparr>summarize := f\<rparr>) rd y its = block_of e rd y its"
    if "y \<noteq> x" and "\<And>a. arg_ticker a \<noteq> x \<Longrightarrow> f a = summarize e a" for f y rd its
  proof -
    have "summary_lines (e\<lparr>summarize := f\<rparr>) p (\<lambda>p. (rd, y, rr p)) = summary_lines e p (\<lambda>p. (rd, y, rr p))"
      for p rr
      using that by (simp add: summary_lines_def arg_ticker_def split: option.split)
    moreover have "news_dict_of (e\<lparr>summarize := f\<rparr>) = news_dict_of e"
      by (auto simp: fun_eq_iff news_dict_of_def Let_def)
    ultimately show ?thesis
      by (simp add: block_of_def ticker_block_def Let_def
               split: list.split prod.split sum.split)
  qed
  have 3: "report_lines e rows =
             Inr (title_line (report_date_of e m)
                  # concat (map (\<lambda>y. if y = x then block_of e (report_date_of e m) x (dict_get m x)
                                      else block_of e (report_date_of e m) y (dict_get m y))
                              (sort (map fst m))),
                  report_date_of e m)"
  proof -
    have "(\<lambda>y. if y = x then block_of e (report_date_of e m) x (dict_get m x)
               else block_of e (report_date_of e m) y (dict_get m y))
          = (\<lambda>y. block_of e (report_date_of e m) y (dict_get m y))"
      by auto
    then show ?thesis by (simp only: report_lines_ok [OF assms(1)])
  qed
  show ?thesis
  proof (intro conjI)
    show "x \<in> set (sort (map fst m))" using x by simp
    show "\<forall>f y. y \<noteq> x \<longrightarrow> (\<forall>a. arg_ticker a \<noteq> x \<longrightarrow> f a = summarize e a) \<longrightarrow>
               block_of (e\<lparr>summarize := f\<rparr>) (report_date_of e m) y (dict_get m y)
               = block_of e (report_date_of e m) y (dict_get m y)"
      using 2 by blast
  qed (use 3 in \<open>simp only: 1\<close>)
qed

theorem narrative_failure_is_local_witness:
  "lit ''ACME'' \<in> set (sort (map fst [(lit ''ACME'', acme_items),
          (lit ''BETA'', [(lit ''2026-01-11'', 4, 0), (lit ''2026-01-10'', 4, 12)])]))
   \<and> (\<exists>ls d. report_lines failing_env two_rows = Inr (ls, d)
         \<and> lit ''  - (Error: timeout)'' \<in> set ls \<and> lit ''  - Flat.'' \<in> set ls)"
proof -
  let ?m = "[(lit ''ACME'', acme_items),
          (lit ''BETA'', [(lit ''2026-01-11'', 4, 0::int), (lit ''2026-01-10'', 4::real, 12)])]"
  have 2: "dict_get ?m (lit ''ACME'')
           = (lit ''2026-01-11'', 21 / 2, 100000) # (lit ''2026-01-10'', 10, 90000) # []"
    by (simp add: dict_get_def acme_items_def)
  have 3: "\<And>a. arg_ticker a = lit ''ACME'' \<Longrightarrow> summarize failing_env a = Inl (lit ''timeout'')"
    by (simp add: failing_env_def)
  have s: "sort (map fst ?m) = [lit ''ACME'', lit ''BETA'']"
    by (simp add: lit_def)
  have b: "block_of failing_env rd (lit ''BETA'') (dict_get ?m (lit ''BETA'')) =
             [lit ''### '' @ lit ''BETA'', lit ''- Date: '' @ lit ''2026-01-10'' @ arrow @ lit ''2026-01-11'',
              lit ''- Close: '' @ fmt2 4 @ arrow @ fmt2 4 @ lit '' ('' @ fmt2_signed (pct_value 4 4) @ lit ''%)'',
              lit ''- Volume: '' @ fmt_commas 0]
             @ news_block []
             @ [range_line (range_value 4 (closes_20 (close_rows failing_env (lit ''BETA'')))),
                lit ''- Summary:'', lit ''  - Flat.'', []]" for rd
    by (simp add: block_of_def dict_get_def ticker_block_two summary_lines_def failing_env_def
          acme_env_def arg_ticker_def)
       (simp add: lit_def)
  from narrative_failure_is_local [OF two_rows_build 2 3]
  show ?thesis
    unfolding s by (simp add: b) (simp add: lit_def)
qed

text \<open>
  Claim C2. For every symbol with at least one price sample, on one store: the latest
  close is one of the closes of the window, the range is computed, its low and high are
  the minimum and the maximum of the window, and the latest close lies between them. When
  high and low differ the range position is \<open>(c1 - low) / (high - low)\<close> and lies in
  \<open>[0, 1]\<close>; when they are equal it is \<open>0.5\<close>. Floats are real numbers here.
\<close>

theorem range_position_in_unit_interval:
  assumes "same_store e rows"
    and "build_latest_map [] rows = Inr m"
    and "dict_get m t = (d1, c1, v1) # rest"
  shows "c1 \<in> set (closes_20 (close_rows e t))
         \<and> (\<exists>lo hi pos. range_stats c1 (closes_20 (close_rows e t)) = Inr (lo, hi, pos)
               \<and> lo = Min (set (closes_20 (close_rows e t)))
               \<and> hi = Max (set (closes_20 (close_rows e t)))
               \<and> lo \<le> c1 \<and> c1 \<le> hi
               \<and> (hi \<noteq> lo \<longrightarrow> pos = (c1 - lo) / (hi - lo) \<and> 0 \<le> pos \<and> pos \<le> 1)
               \<and> (hi = lo \<longrightarrow> pos = 1 / 2))"
proof -
  have g: "dict_get m t = map sample_of (take 2 (rows_of t rows))"
    and ok: "\<forall>r \<in> set (take 2 (rows_of t rows)). fst (snd (snd r)) \<noteq> None"
    using build_dict_get [OF assms(2), of t] by (simp_all add: dict_get_def)
  from g assms(3) obtain r rs where rs: "rows_of t rows = r # rs" and r: "sample_of r = (d1, c1, v1)"
    by (cases "rows_of t rows") auto
  from ok rs have "fst (snd (snd r)) \<noteq> None" by simp
  with r have c: "fst (snd (snd r)) = Some c1"
    by (cases r) (auto simp: sample_of_def)
  have "r \<in> set (rows_of t rows)" using rs by simp
  then have "t \<in> set (map fst rows)" by (force simp: rows_of_def)
  with assms(1) have "close_rows e t = take 20 (map (\<lambda>r. fst (snd (snd r))) (rows_of t rows))"
    unfolding same_store_def by blast
  then have "close_rows e t = Some c1 # take 19 (map (\<lambda>r. fst (snd (snd r))) rs)"
    by (simp add: rs c)
  then have mem: "c1 \<in> set (closes_20 (close_rows e t))" by (simp add: closes_20_def)
  let ?cs = "closes_20 (close_rows e t)"
  from mem obtain x xs where cs: "?cs = x # xs" by (cases ?cs) auto
  have rv: "range_value c1 ?cs =
              (Min (set ?cs), Max (set ?cs),
               if Max (set ?cs) \<noteq> Min (set ?cs)
               then (c1 - Min (set ?cs)) / (Max (set ?cs) - Min (set ?cs)) else 1 / 2)"
    unfolding cs by (rule range_value_Cons)
  from range_position_bounds [OF mem rv]
  show ?thesis using mem unfolding range_stats_eq rv by auto
qed

theorem range_position_in_unit_interval_witness:
  "same_store acme_env acme_rows
   \<and> build_latest_map [] acme_rows = Inr [(lit ''ACME'', acme_items)]
   \<and> dict_get [(lit ''ACME'', acme_items)] (lit ''ACME'') = acme_items
   \<and> closes_20 (close_rows acme_env (lit ''ACME'')) = [21 / 2, 10]
   \<and> range_stats (21 / 2) [21 / 2, 10] = Inr (10, 21 / 2, 1)
   \<and> same_store solo_env lone_rows
   \<and> build_latest_map [] lone_rows = Inr [(lit ''SOLO'', [(lit ''2026-01-11'', 3, 1200)])]
   \<and> closes_20 (close_rows solo_env (lit ''SOLO'')) = [3]
   \<and> range_stats 3 [3] = Inr (3, 3, 1 / 2)"
proof -
  have 1: "same_store acme_env acme_rows"
    by (simp add: same_store_def acme_env_def acme_rows_def rows_of_def)
  have 3: "dict_get [(lit ''ACME'', acme_items)] (lit ''ACME'')
           = (lit ''2026-01-11'', 21 / 2, 100000) # [(lit ''2026-01-10'', 10, 90000)]"
    by (simp add: dict_get_def acme_items_def)
  have 4: "closes_20 (close_rows acme_env (lit ''ACME'')) = [21 / 2, 10]"
    by (simp add: acme_env_def closes_20_def)
  have 5: "same_store solo_env lone_rows"
    by (simp add: same_store_def solo_env_def acme_env_def lone_rows_def rows_of_def)
  have 6: "build_latest_map [] lone_rows = Inr [(lit ''SOLO'', [(lit ''2026-01-11'', 3, 1200)])]"
    by (simp add: lone_rows_def setdefault_def dict_get_def Let_def)
  have 7: "dict_get [(lit ''SOLO'', [(lit ''2026-01-11'', 3, 1200)])] (lit ''SOLO'')
           = (lit ''2026-01-11'', 3, 1200) # []"
    by (simp add: dict_get_def)
  have 8: "closes_20 (close_rows solo_env (lit ''SOLO'')) = [3]"
    by (simp add: solo_env_def acme_env_def closes_20_def)
  from range_position_in_unit_interval [OF 1 acme_build 3]
    range_position_in_unit_interval [OF 5 6 7]
  show ?thesis using 1 acme_build 3 5 6 unfolding 4 8 by (auto simp: acme_items_def)
qed

section \<open>Facts about the parser\<close>

lemma kv_line_frame:
  "kv_line st cur k l = Inr st' \<Longrightarrow>
   title st' = title st \<and> meta st' = meta st \<and> sections st' = sections st \<and> mode st' = mode st
   \<and> (\<exists>cur'. current st' = Some cur' \<and> ticker cur' = ticker cur)"
  by (auto simp: kv_line_def set_current_def split: sum.splits)

lemma sub_bullet_frame:
  "sub_bullet st cur l = Inr st' \<Longrightarrow> current st = Some cur \<Longrightarrow>
   title st' = title st \<and> meta st' = meta st \<and> sections st' = sections st \<and> mode st' = mode st
   \<and> (\<exists>cur'. current st' = Some cur' \<and> ticker cur' = ticker cur)"
  by (auto simp: sub_bullet_def set_current_def Let_def split: sum.splits if_splits)

lemma section_line_frame:
  assumes "section_line st cur l = Inr st'" and "current st = Some cur"
  shows "title st' = title st \<and> meta st' = meta st \<and> sections st' = sections st
   \<and> (\<exists>cur'. current st' = Some cur' \<and> ticker cur' = ticker cur)"
  using assms unfolding section_line_def
  by (auto simp: set_current_def Let_def split: if_splits dest!: kv_line_frame sub_bullet_frame)

lemma clean_simps: "clean []" "clean (xs @ [c]) \<longleftrightarrow> clean xs \<and> \<not> is_linebreak c"
  by (auto simp: clean_def)

lemma splitlines_from_clean:
  "clean cur \<Longrightarrow> l \<in> set (splitlines_from cur s) \<Longrightarrow> clean l"
proof (induction cur s rule: splitlines_from.induct)
  case (1 cur)
  then show ?case by (simp split: if_splits)
next
  case (2 cur c)
  then show ?case by (simp add: clean_simps split: if_splits)
next
  case (3 cur c d ds)
  show ?case
  proof (cases "c = 13 \<and> d = 10")
    case True
    then have "l = cur \<or> l \<in> set (splitlines_from [] ds)" using 3(5) by simp
    then show ?thesis using 3(1) [OF True clean_simps(1)] 3(4) by blast
  next
    case False
    show ?thesis
    proof (cases "is_linebreak c")
      case True
      then have "l = cur \<or> l \<in> set (splitlines_from [] (d # ds))" using 3(5) False by simp
      then show ?thesis using 3(2) [OF False True clean_simps(1)] 3(4) by blast
    next
      case nb: False
      then have "l \<in> set (splitlines_from (cur @ [c]) (d # ds))" using 3(5) False by simp
      moreover have "clean (cur @ [c])" using 3(4) nb by (simp add: clean_simps)
      ultimately show ?thesis using 3(3) [OF False nb] by blast
    qed
  qed
qed

lemma splitlines_clean: "l \<in> set (splitlines s) \<Longrightarrow> clean l"
  unfolding splitlines_def by (rule splitlines_from_clean) (simp_all add: clean_def)

lemma linebreak_10: "is_linebreak 10"
  by (simp add: is_linebreak_def)

lemma rstrip_nl_clean: "clean l \<Longrightarrow> rstrip_nl l = l"
proof (cases l rule: rev_cases)
  case Nil
  then show ?thesis by (simp add: rstrip_nl_def)
next
  case (snoc ys y)
  assume "clean l"
  then have "\<not> is_linebreak y" using snoc by (simp add: clean_simps)
  then have "y \<noteq> 10" using linebreak_10 by blast
  then show ?thesis using snoc by (simp add: rstrip_nl_def)
qed

lemma step_cases:
  "clean l \<Longrightarrow>
   step st l =
     (if is_title_line l then st\<lparr>title := strip (drop 2 l)\<rparr>
      else if meta st = [] \<and> is_meta_line l then st\<lparr>meta := strip (drop 3 l)\<rparr>
      else if is_header l then
        st\<lparr>sections := (case current st of None \<Rightarrow> sections st | Some c \<Rightarrow> sections st @ [c]),
           current := Some \<lparr>ticker = strip (drop 4 l), kv = [], news = [], ai = []\<rparr>,
           mode := MNone, last_news := False\<rparr>
      else case current st of
        None \<Rightarrow> st
      | Some cur \<Rightarrow> (case section_line st cur l of Inr st' \<Rightarrow> st' | Inl _ \<Rightarrow> st))"
  by (simp add: step_def parse_line_def rstrip_nl_clean Let_def is_title_line_def
        is_meta_line_def is_header_def split: option.split)

lemma shapes_exclusive:
  "is_meta_line l \<Longrightarrow> \<not> is_title_line l"
  "is_header l \<Longrightarrow> \<not> is_title_line l"
  "is_header l \<Longrightarrow> \<not> is_meta_line l"
  by (auto simp: is_title_line_def is_meta_line_def is_header_def lit_def startswith_Cons)

lemma step_section:
  assumes "clean l" "\<not> is_title_line l" "\<not> (meta st = [] \<and> is_meta_line l)" "\<not> is_header l"
  shows "title (step st l) = title st \<and> meta (step st l) = meta st
         \<and> sections (step st l) = sections st
         \<and> map ticker (sections (finish (step st l))) = map ticker (sections (finish st))"
proof (cases "current st")
  case None
  then have "step st l = st" using assms by (auto simp: step_cases)
  then show ?thesis by simp
next
  case (Some cur)
  then have s: "step st l = (case section_line st cur l of Inr st' \<Rightarrow> st' | Inl _ \<Rightarrow> st)"
    using assms by (auto simp: step_cases)
  show ?thesis
  proof (cases "section_line st cur l")
    case (Inl e)
    then show ?thesis using s by simp
  next
    case (Inr s')
    from section_line_frame [OF Inr Some] show ?thesis
      unfolding s Inr using Some by (auto simp: finish_def)
  qed
qed

lemma step_frame:
  assumes "clean l"
  shows "title (step st l) = (if is_title_line l then strip (drop 2 l) else title st)"
    and "meta (step st l) = (if meta st = [] \<and> is_meta_line l then strip (drop 3 l) else meta st)"
    and "map ticker (sections (finish (step st l))) =
           map ticker (sections (finish st)) @ (if is_header l then [strip (drop 4 l)] else [])"
    and "prefix (sections st) (sections (step st l))"
    and "is_header l \<Longrightarrow> sections (step st l) = sections (finish st)"
proof -
  consider (t) "is_title_line l" | (m) "\<not> is_title_line l" "meta st = [] \<and> is_meta_line l"
    | (h) "\<not> is_title_line l" "\<not> (meta st = [] \<and> is_meta_line l)" "is_header l"
    | (s) "\<not> is_title_line l" "\<not> (meta st = [] \<and> is_meta_line l)" "\<not> is_header l"
    by blast
  then have "title (step st l) = (if is_title_line l then strip (drop 2 l) else title st)
    \<and> meta (step st l) = (if meta st = [] \<and> is_meta_line l then strip (drop 3 l) else meta st)
    \<and> map ticker (sections (finish (step st l))) =
           map ticker (sections (finish st)) @ (if is_header l then [strip (drop 4 l)] else [])
    \<and> prefix (sections st) (sections (step st l))
    \<and> (is_header l \<longrightarrow> sections (step st l) = sections (finish st))"
  proof cases
    case t
    then have "step st l = st\<lparr>title := strip (drop 2 l)\<rparr>" "\<not> is_header l" "\<not> is_meta_line l"
      using shapes_exclusive [of l] by (auto simp: step_cases [OF assms])
    then show ?thesis using t by (simp add: finish_def split: option.split)
  next
    case m
    then have "step st l = st\<lparr>meta := strip (drop 3 l)\<rparr>" "\<not> is_header l"
      using shapes_exclusive [of l] by (auto simp: step_cases [OF assms])
    then show ?thesis using m by (simp add: finish_def split: option.split)
  next
    case h
    then have "step st l =
        st\<lparr>sections := (case current st of None \<Rightarrow> sections st | Some c \<Rightarrow> sections st @ [c]),
           current := Some \<lparr>ticker = strip (drop 4 l), kv = [], news = [], ai = []\<rparr>,
           mode := MNone, last_news := False\<rparr>"
      using step_cases [OF assms, of st] by presburger
    moreover have "\<not> is_meta_line l" using h shapes_exclusive [of l] by blast
    ultimately show ?thesis using h by (simp add: finish_def split: option.split)
  next
    case s
    from step_section [OF assms s] s show ?thesis by auto
  qed
  then show "title (step st l) = (if is_title_line l then strip (drop 2 l) else title st)"
    and "meta (step st l) = (if meta st = [] \<and> is_meta_line l then strip (drop 3 l) else meta st)"
    and "map ticker (sections (finish (step st l))) =
           map ticker (sections (finish st)) @ (if is_header l then [strip (drop 4 l)] else [])"
    and "prefix (sections st) (sections (step st l))"
    and "is_header l \<Longrightarrow> sections (step st l) = sections (finish st)"
    by simp_all
qed

lemma title_foldl:
  "\<forall>l \<in> set ls. clean l \<Longrightarrow>
   title (foldl step st ls) =
     (case rev (filter is_title_line ls) of [] \<Rightarrow> title st | l # _ \<Rightarrow> strip (drop 2 l))"
  by (induction ls rule: rev_induct) (simp_all add: step_frame)

lemma meta_foldl:
  "\<forall>l \<in> set ls. clean l \<Longrightarrow>
   meta (foldl step st ls) = (if meta st \<noteq> [] then meta st else first_meta ls)"
proof (induction ls arbitrary: st)
  case Nil
  then show ?case by (simp add: first_meta_def)
next
  case (Cons l ls)
  then show ?case by (simp add: step_frame first_meta_def)
qed

lemma tickers_foldl:
  "\<forall>l \<in> set ls. clean l \<Longrightarrow>
   map ticker (sections (finish (foldl step st ls))) =
     map ticker (sections (finish st)) @ map (\<lambda>l. strip (drop 4 l)) (filter is_header ls)"
  by (induction ls rule: rev_induct) (simp_all add: step_frame)

lemma finish_simps:
  "title (finish st) = title st" "meta (finish st) = meta st"
  by (simp_all add: finish_def)

lemma ordered_sections:
  "\<exists>r. parse_report md_text = Inr r
      \<and> map ticker (sections r)
        = map (\<lambda>l. strip (drop 4 l)) (filter is_header (splitlines md_text))"
  unfolding parse_report_eq
  by (simp add: tickers_foldl splitlines_clean) (simp add: init_state_def finish_def)

lemma linebreak_13: "is_linebreak 13"
  by (simp add: is_linebreak_def)

lemma splitlines_from_nl: "splitlines_from cur (10 # r) = cur # splitlines_from [] r"
  by (cases r) (simp_all add: linebreak_10)

lemma splitlines_from_append_nl:
  "splitlines_from cur (a @ 10 # b) = splitlines_from cur (a @ [10]) @ splitlines_from [] b"
proof (induction cur a rule: splitlines_from.induct)
  case (1 cur)
  then show ?case by (simp add: splitlines_from_nl linebreak_10)
next
  case (2 cur c)
  then show ?case by (simp add: splitlines_from_nl linebreak_10)
next
  case (3 cur c d ds)
  then show ?case by simp
qed

lemma splitlines_from_snoc_nl:
  "\<exists>E. splitlines_from cur (a @ [10]) = splitlines_from cur a @ E \<and> (E = [] \<or> E = [[]])"
proof (induction cur a rule: splitlines_from.induct)
  case (1 cur)
  then show ?case by (simp add: linebreak_10)
next
  case (2 cur c)
  then show ?case by (simp add: linebreak_10 linebreak_13)
next
  case (3 cur c d ds)
  then show ?case by simp
qed

lemma splitlines_from_clean_prefix:
  "clean p \<Longrightarrow> splitlines_from cur (p @ r) = splitlines_from (cur @ p) r"
proof (induction p arbitrary: cur)
  case Nil
  then show ?case by simp
next
  case (Cons c p)
  then have nb: "\<not> is_linebreak c" and p: "clean p" by (simp_all add: clean_def)
  then have c13: "c \<noteq> 13" using linebreak_13 by blast
  show ?case
  proof (cases "p @ r")
    case Nil
    then show ?thesis using nb by simp
  next
    case (Cons d ds)
    have "splitlines_from cur ((c # p) @ r) = splitlines_from (cur @ [c]) (p @ r)"
      using nb c13 Cons by simp
    then show ?thesis using Cons.IH [OF p, of "cur @ [c]"] by simp
  qed
qed

lemma splitlines_from_head:
  "cur \<noteq> [] \<Longrightarrow> \<exists>l ls. splitlines_from cur r = l # ls \<and> prefix cur l"
  by (induction cur r rule: splitlines_from.induct) (auto dest: append_prefixD)

lemma splitlines_clean_line:
  "clean l \<Longrightarrow> splitlines_from cur (l @ 10 # r) = (cur @ l) # splitlines_from [] r"
  by (simp add: splitlines_from_clean_prefix splitlines_from_nl)

lemma splitlines_startswith:
  assumes "startswith b p" and "clean p" and "p \<noteq> []"
  shows "\<exists>l ls. splitlines b = l # ls \<and> startswith l p"
proof -
  from assms(1) obtain r where "b = p @ r" by (auto simp: startswith_def prefix_def)
  then have "splitlines b = splitlines_from p r"
    by (simp add: splitlines_def splitlines_from_clean_prefix assms(2))
  then show ?thesis using splitlines_from_head [OF assms(3), of r] by (auto simp: startswith_def)
qed

lemma step_unknown:
  assumes "clean l" "unknown_shape l" "mode st \<noteq> MAi \<or> strip l = [] \<or> startswith l (lit ''- '')"
  shows "step st l = st"
proof (cases "current st")
  case None
  then show ?thesis using assms(2) by (simp add: step_cases [OF assms(1)] unknown_shape_def)
next
  case (Some cur)
  have "section_line st cur l = Inr st"
    using assms(2,3) unfolding section_line_def unknown_shape_def by auto
  then show ?thesis using assms(2) Some by (simp add: step_cases [OF assms(1)] unknown_shape_def)
qed

lemma unknown_blank: "unknown_shape []"
  by (simp add: unknown_shape_def is_title_line_def is_meta_line_def is_header_def startswith_def
        lit_def bullet2_def bullet4_def)

lemma step_blank: "step st [] = st"
  by (rule step_unknown) (simp_all add: clean_simps unknown_blank strip_def)

lemma foldl_step_blank: "E = [] \<or> E = [[]] \<Longrightarrow> foldl step st E = st"
  by (auto simp: step_blank)

lemma splitlines_snoc_nl:
  "\<exists>E. splitlines (a @ [10]) = splitlines a @ E \<and> (E = [] \<or> E = [[]])"
  unfolding splitlines_def by (rule splitlines_from_snoc_nl)

lemma state_after_nl:
  "foldl step st (splitlines (a @ [10])) = foldl step st (splitlines a)"
proof -
  from splitlines_snoc_nl [of a] obtain E
    where "splitlines (a @ [10]) = splitlines a @ E" "E = [] \<or> E = [[]]" by blast
  then show ?thesis by (simp add: foldl_step_blank)
qed

lemma splitlines_append_nl: "splitlines (a @ 10 # b) = splitlines (a @ [10]) @ splitlines b"
  unfolding splitlines_def by (rule splitlines_from_append_nl)

lemma sections_prefix_foldl:
  "\<forall>l \<in> set ls. clean l \<Longrightarrow> prefix (sections st) (sections (foldl step st ls))"
proof (induction ls arbitrary: st)
  case Nil
  then show ?case by simp
next
  case (Cons l ls)
  then have "prefix (sections (step st l)) (sections (foldl step (step st l) ls))" by simp
  moreover have "prefix (sections st) (sections (step st l))" using Cons.prems by (simp add: step_frame)
  ultimately show ?case by (auto intro: prefix_order.trans)
qed

lemma sections_prefix_finish: "prefix (sections st) (sections (finish st))"
  by (simp add: finish_def split: option.split)

lemma earlier_sections_kept:
  assumes "startswith b (lit ''### '')"
  shows "\<exists>r r'. parse_report a = Inr r \<and> parse_report (a @ [10] @ b) = Inr r'
           \<and> prefix (sections r) (sections r')"
proof -
  have "clean (lit ''### '')" by (simp add: clean_def lit_def is_linebreak_def)
  with assms obtain h rest where b: "splitlines b = h # rest" and h: "is_header h"
    using splitlines_startswith [of b "lit ''### ''"] by (auto simp: is_header_def lit_def)
  let ?s = "foldl step init_state (splitlines a)"
  have cl: "\<forall>l \<in> set (h # rest). clean l" using splitlines_clean [of _ b] b by simp
  have "foldl step init_state (splitlines (a @ [10] @ b)) = foldl step (step ?s h) rest"
    using splitlines_append_nl [of a b] by (simp add: b state_after_nl)
  moreover have "sections (step ?s h) = sections (finish ?s)"
    using cl h by (simp add: step_frame)
  moreover have "prefix (sections (step ?s h)) (sections (foldl step (step ?s h) rest))"
    using cl by (intro sections_prefix_foldl) simp
  ultimately have "prefix (sections (finish ?s))
      (sections (finish (foldl step init_state (splitlines (a @ [10] @ b)))))"
    using sections_prefix_finish [of "foldl step (step ?s h) rest"]
    by (auto intro: prefix_order.trans)
  then show ?thesis by (simp add: parse_report_eq)
qed

section \<open>The parser on the lines that the generator writes\<close>

lemma is_space_32: "is_space 32"
  by (simp add: is_space_def)


lemma strip_space_Cons: "is_space c \<Longrightarrow> strip (c # x) = strip x"
  by (simp add: strip_def)

lemma strip_sp: "strip (32 # x) = strip x"
  by (simp add: strip_space_Cons is_space_32)

lemma strip_dropWhile: "strip (dropWhile is_space x) = strip x"
  by (simp add: strip_def)

lemma dropWhile_rev_id: "x \<noteq> [] \<Longrightarrow> \<not> P (last x) \<Longrightarrow> dropWhile P (rev x) = rev x"
  by (cases x rule: rev_cases) auto

lemma strip_id:
  assumes "x \<noteq> []" "\<not> is_space (hd x)" "\<not> is_space (last x)"
  shows "strip x = x"
proof -
  have "dropWhile is_space x = x" using assms(1,2) by (cases x) auto
  moreover have "dropWhile is_space (rev x) = rev x"
    using assms(1,3) by (rule dropWhile_rev_id)
  ultimately show ?thesis by (simp add: strip_def)
qed




lemma clean_append: "clean (a @ b) \<longleftrightarrow> clean a \<and> clean b"
  by (auto simp: clean_def)


lemma clean_strip: "clean x \<Longrightarrow> clean (strip x)"
  unfolding clean_def strip_def by (auto dest!: set_dropWhileD)

lemma bullet_simps:
  "\<not> is_space a \<Longrightarrow> \<not> bullet2 (a # l)"
  "c \<noteq> 45 \<Longrightarrow> \<not> bullet2 (a # b # c # l)"
  "\<not> is_space a \<Longrightarrow> \<not> bullet4 (a # l)"
  "\<not> is_space c \<Longrightarrow> \<not> bullet4 (a # b # c # l)"
  "bullet2 (32 # 32 # 45 # 32 # x)"
  "bullet4 (32 # 32 # 32 # 32 # 45 # 32 # x)"
  "\<not> bullet2 []" "\<not> bullet4 []"
  by (auto simp: bullet2_def bullet4_def is_space_32 split: list.split)


lemma linebreak_facts:
  "\<not> is_linebreak 32" "\<not> is_linebreak 35" "\<not> is_linebreak 45" "\<not> is_linebreak 8594"
  by (simp_all add: is_linebreak_def)

lemma step_in_section:
  assumes "clean l" and "hd l \<noteq> 35 \<or> l = []" and "current st = Some cur"
  shows "step st l = (case section_line st cur l of Inr st' \<Rightarrow> st' | Inl _ \<Rightarrow> st)"
proof -
  have "\<not> is_title_line l" "\<not> is_meta_line l" "\<not> is_header l"
    using assms(2)
    by (cases l; auto simp: is_title_line_def is_meta_line_def is_header_def lit_def startswith_simps)+
  then show ?thesis using assms(3) by (simp add: step_cases [OF assms(1)])
qed

lemma after_colon_kv:
  "after_colon (lit ''- Date: '' @ x) = Inr (strip x)"
  "after_colon (lit ''- Close: '' @ x) = Inr (strip x)"
  "after_colon (lit ''- Volume: '' @ x) = Inr (strip x)"
  "after_colon (lit ''- 20D Range: '' @ x) = Inr (strip x)"
  "after_colon (lit ''Summary: '' @ x) = Inr (strip x)"
  by (simp_all add: after_colon_def index1_def split1_def lit_def strip_sp)

lemma section_kv:
  "section_line st cur (lit ''- Date: '' @ x) = Inr (st\<lparr>current := Some (cur\<lparr>kv := dict_set KDate (strip x) (kv cur)\<rparr>)\<rparr>)"
  "section_line st cur (lit ''- Close: '' @ x) = Inr (st\<lparr>current := Some (cur\<lparr>kv := dict_set KClose (strip x) (kv cur)\<rparr>)\<rparr>)"
  "section_line st cur (lit ''- Volume: '' @ x) = Inr (st\<lparr>current := Some (cur\<lparr>kv := dict_set KVolume (strip x) (kv cur)\<rparr>)\<rparr>)"
  "section_line st cur (lit ''- 20D Range: '' @ x) = Inr (st\<lparr>current := Some (cur\<lparr>kv := dict_set KRange (strip x) (kv cur)\<rparr>)\<rparr>)"
  unfolding section_line_def kv_line_def after_colon_kv set_current_def
  by (simp_all add: lit_def startswith_simps)

lemma section_mode:
  "section_line st cur (lit ''- News'' @ x) = Inr (st\<lparr>mode := MNews, last_news := False\<rparr>)"
  "section_line st cur (lit ''- Summary:'' @ x) = Inr (st\<lparr>mode := MAi\<rparr>)"
  unfolding section_line_def
  by (simp_all add: lit_def startswith_simps)

lemma bullet_text_2: "bullet_text 2 (lit ''  - '' @ x) = strip x"
  by (simp add: bullet_text_def lit_def is_space_32 strip_dropWhile)



lemma section_ai_bullet:
  "mode st = MAi \<Longrightarrow>
   section_line st cur (lit ''  - '' @ x) =
     Inr (st\<lparr>current := Some (cur\<lparr>ai := (if ai cur \<noteq> [] then ai cur @ [10] @ strip x else strip x)\<rparr>)\<rparr>)"
  unfolding section_line_def bullet_text_2 set_current_def
  by (simp add: lit_def startswith_simps bullet_simps Let_def)







lemma clean_lits:
  "clean (lit ''  - '')" "clean (lit ''    - '')" "clean (lit ''    - Summary: '')"
  "clean (lit '' | '')" "clean (lit ''### '')" "clean (lit ''- Date: '')" "clean (lit ''- Close: '')"
  "clean (lit ''- Volume: '')" "clean (lit ''- 20D Range: '')" "clean (lit ''- News (headline + summary):'')"
  "clean (lit ''- Summary:'')" "clean (lit ''  - (no recent news)'')" "clean arrow"
  "clean (lit '' ('')" "clean (lit ''%)'')" "clean (lit ''- Latest: '')" "clean (lit '' | Close: '')"
  "clean (lit '' | Vol: '')" "clean (lit ''low '')" "clean (lit '', high '')" "clean (lit '', position '')"
  "clean (lit ''# Daily Market Report ('')" "clean (lit '')'')" "clean (lit ''(Error: '')"
  "clean (lit ''(need at least 2 trading days of price data)'')"
  by (simp_all add: clean_def lit_def arrow_def is_linebreak_def)

lemma hd_lits:
  "hd (lit ''  - '' @ x) \<noteq> 35" "hd (lit ''    - '' @ x) \<noteq> 35" "hd (lit ''    - Summary: '' @ x) \<noteq> 35"
  "hd (lit ''- Date: '' @ x) \<noteq> 35" "hd (lit ''- Close: '' @ x) \<noteq> 35"
  "hd (lit ''- Volume: '' @ x) \<noteq> 35" "hd (lit ''- 20D Range: '' @ x) \<noteq> 35"
  "hd (lit ''- News'' @ x) \<noteq> 35" "hd (lit ''- Summary:'' @ x) \<noteq> 35"
  by (simp_all add: lit_def)








lemma step_title:
  "clean x \<Longrightarrow> step st (lit ''# '' @ x) = st\<lparr>title := strip x\<rparr>"
  by (subst step_cases)
     (simp_all add: clean_append clean_def lit_def is_title_line_def startswith_simps linebreak_facts)

lemma step_header:
  assumes "clean x"
  shows "step st (lit ''### '' @ x) =
     st\<lparr>sections := sections (finish st),
        current := Some \<lparr>ticker = strip x, kv = [], news = [], ai = []\<rparr>,
        mode := MNone, last_news := False\<rparr>"
proof -
  have "clean (lit ''### '' @ x)" using assms by (simp add: clean_append clean_lits)
  then show ?thesis
    by (subst step_cases)
       (simp_all add: lit_def is_title_line_def is_meta_line_def is_header_def
          startswith_simps finish_def)
qed

lemma step_kv:
  assumes "clean x" and "current st = Some cur"
  shows "step st (lit ''- Date: '' @ x) = st\<lparr>current := Some (cur\<lparr>kv := dict_set KDate (strip x) (kv cur)\<rparr>)\<rparr>"
    and "step st (lit ''- Close: '' @ x) = st\<lparr>current := Some (cur\<lparr>kv := dict_set KClose (strip x) (kv cur)\<rparr>)\<rparr>"
    and "step st (lit ''- Volume: '' @ x) = st\<lparr>current := Some (cur\<lparr>kv := dict_set KVolume (strip x) (kv cur)\<rparr>)\<rparr>"
    and "step st (lit ''- 20D Range: '' @ x) = st\<lparr>current := Some (cur\<lparr>kv := dict_set KRange (strip x) (kv cur)\<rparr>)\<rparr>"
  using assms
  by (subst step_in_section [where cur = cur];
      simp add: clean_append clean_lits hd_lits section_kv)+

lemma step_mode_lines:
  assumes "clean x" and "current st = Some cur"
  shows "step st (lit ''- News'' @ x) = st\<lparr>mode := MNews, last_news := False\<rparr>"
    and "step st (lit ''- Summary:'' @ x) = st\<lparr>mode := MAi\<rparr>"
proof -
  have c: "clean (lit ''- News'')" "clean (lit ''- Summary:'')"
    by (simp_all add: clean_def lit_def is_linebreak_def)
  show "step st (lit ''- News'' @ x) = st\<lparr>mode := MNews, last_news := False\<rparr>"
    using assms
    by (subst step_in_section [where cur = cur]) (simp_all add: clean_append c hd_lits section_mode)
  show "step st (lit ''- Summary:'' @ x) = st\<lparr>mode := MAi\<rparr>"
    using assms
    by (subst step_in_section [where cur = cur]) (simp_all add: clean_append c hd_lits section_mode)
qed

lemma step_ai_bullet:
  assumes "clean x" and "current st = Some cur" and "mode st = MAi"
  shows "step st (lit ''  - '' @ x) =
           st\<lparr>current := Some (cur\<lparr>ai := (if ai cur \<noteq> [] then ai cur @ [10] @ strip x else strip x)\<rparr>)\<rparr>"
  using assms
  by (subst step_in_section [where cur = cur])
     (simp_all add: clean_append clean_lits hd_lits section_ai_bullet)






lemma splitlines_clean_whole: "clean l \<Longrightarrow> splitlines l = (if l = [] then [] else [l])"
  using splitlines_from_clean_prefix [of l "[]" "[]"] by (simp add: splitlines_def)

lemma fold_splitlines_join:
  "\<forall>l \<in> set ls. clean l \<Longrightarrow> foldl step s (splitlines (join_nl ls)) = foldl step s ls"
proof (induction ls arbitrary: s rule: join_nl.induct)
  case 1
  then show ?case by (simp add: splitlines_def)
next
  case (2 l)
  then show ?case by (simp add: splitlines_clean_whole step_blank)
next
  case (3 l l' ls)
  have "splitlines (join_nl (l # l' # ls)) = l # splitlines (join_nl (l' # ls))"
    using splitlines_clean_line [of l "[]" "join_nl (l' # ls)"] 3(2) by (simp add: splitlines_def)
  then show ?case using 3 by simp
qed



subsection \<open>Words and the lines of a narrative\<close>

























subsection \<open>The blocks of the report\<close>














section \<open>The examples, evaluated\<close>



lemma splitlines_join_lines:
  "\<forall>l \<in> set ls. clean l \<Longrightarrow> ls \<noteq> [] \<Longrightarrow> last ls \<noteq> [] \<Longrightarrow> splitlines (join_nl ls) = ls"
proof (induction ls rule: join_nl.induct)
  case 1
  then show ?case by simp
next
  case (2 l)
  then show ?case by (simp add: splitlines_clean_whole)
next
  case (3 l l' ls)
  have "splitlines (join_nl (l # l' # ls)) = l # splitlines (join_nl (l' # ls))"
    using splitlines_clean_line [of l "[]" "join_nl (l' # ls)"] 3(2) by (simp add: splitlines_def)
  then show ?case using 3 by simp
qed

lemma step_meta:
  assumes "clean x" and "meta st = []"
  shows "step st (lit ''## '' @ x) = st\<lparr>meta := strip x\<rparr>"
proof -
  have "clean (lit ''## '' @ x)" using assms(1) by (simp add: clean_append clean_def lit_def is_linebreak_def)
  then show ?thesis using assms(2)
    by (subst step_cases) (simp_all add: lit_def is_title_line_def is_meta_line_def startswith_simps)
qed

lemma step_eval:
  "clean x \<Longrightarrow> current st \<noteq> None \<Longrightarrow>
   step st (lit ''- Date: '' @ x) =
     st\<lparr>current := Some ((the (current st))\<lparr>kv := dict_set KDate (strip x) (kv (the (current st)))\<rparr>)\<rparr>"
  "current st \<noteq> None \<Longrightarrow> step st (lit ''- Summary:'') = st\<lparr>mode := MAi\<rparr>"
  "clean x \<Longrightarrow> current st \<noteq> None \<Longrightarrow> mode st = MAi \<Longrightarrow>
   step st (lit ''  - '' @ x) =
     st\<lparr>current := Some ((the (current st))\<lparr>ai :=
        (if ai (the (current st)) \<noteq> [] then ai (the (current st)) @ [10] @ strip x else strip x)\<rparr>)\<rparr>"
proof -
  show "clean x \<Longrightarrow> current st \<noteq> None \<Longrightarrow>
   step st (lit ''- Date: '' @ x) =
     st\<lparr>current := Some ((the (current st))\<lparr>kv := dict_set KDate (strip x) (kv (the (current st)))\<rparr>)\<rparr>"
    by (cases "current st") (simp_all add: step_kv)
  show "current st \<noteq> None \<Longrightarrow> step st (lit ''- Summary:'') = st\<lparr>mode := MAi\<rparr>"
    using step_mode_lines(2) [of "[]" st] by (cases "current st") (simp_all add: clean_simps)
  show "clean x \<Longrightarrow> current st \<noteq> None \<Longrightarrow> mode st = MAi \<Longrightarrow>
   step st (lit ''  - '' @ x) =
     st\<lparr>current := Some ((the (current st))\<lparr>ai :=
        (if ai (the (current st)) \<noteq> [] then ai (the (current st)) @ [10] @ strip x else strip x)\<rparr>)\<rparr>"
    by (cases "current st") (simp_all add: step_ai_bullet)
qed

lemma note_facts:
  "clean (lit ''note'')" "unknown_shape (lit ''note'')"
  "clean (lit ''- Note: later'')" "unknown_shape (lit ''- Note: later'')"
  "startswith (lit ''- Note: later'') (lit ''- '')"
  by (simp_all add: clean_def unknown_shape_def is_title_line_def is_meta_line_def is_header_def
        lit_def startswith_simps bullet_simps is_linebreak_def is_space_def)

lemma step_note:
  assumes "current st \<noteq> None" and "mode st = MAi"
  shows "step st (lit ''note'') =
           st\<lparr>current := Some ((the (current st))\<lparr>ai := strip (ai (the (current st)) @ [32] @ lit ''note'')\<rparr>)\<rparr>"
proof -
  from assms(1) obtain cur where cur: "current st = Some cur" by auto
  have s: "strip (lit ''note'') = lit ''note''" by (rule strip_id) (simp_all add: lit_def is_space_def)
  have "section_line st cur (lit ''note'') = Inr (st\<lparr>current := Some (cur\<lparr>ai := strip (ai cur @ [32] @ lit ''note'')\<rparr>)\<rparr>)"
    unfolding section_line_def s using assms(2)
    by (simp add: lit_def startswith_simps bullet_simps set_current_def is_space_def)
  then show ?thesis using cur
    by (subst step_in_section [where cur = cur]) (simp_all add: note_facts, simp add: lit_def)
qed

lemma word_facts:
  "clean (lit ''A'')" "clean (lit ''B'')" "clean (lit ''S'')" "clean (lit ''M'')"
  "clean (lit ''1'')" "clean (lit ''2'')" "clean (lit ''x'')" "clean (lit ''y'')"
  "strip (lit ''A'') = lit ''A''" "strip (lit ''B'') = lit ''B''" "strip (lit ''S'') = lit ''S''"
  "strip (lit ''M'') = lit ''M''" "strip (lit ''1'') = lit ''1''" "strip (lit ''2'') = lit ''2''"
  "strip (lit ''x'') = lit ''x''" "strip (lit ''y'') = lit ''y''"
  by (simp_all add: clean_def strip_def lit_def is_linebreak_def is_space_def)

lemma head_lines:
  "splitlines head_text = [lit ''# '' @ lit ''A'', lit ''### '' @ lit ''S'', lit ''## '' @ lit ''M'',
                          lit ''# '' @ lit ''B'']"
  unfolding head_text_def
  by (rule splitlines_join_lines) (simp_all add: clean_def lit_def is_linebreak_def)

lemma head_report:
  "parse_report head_text =
     Inr \<lparr>title = lit ''B'', meta = lit ''M'',
          sections = [\<lparr>ticker = lit ''S'', kv = [], news = [], ai = []\<rparr>]\<rparr>"
  unfolding parse_report_eq head_lines
  by (simp add: step_title step_header step_meta word_facts init_state_def finish_def)

lemma head_shapes:
  "is_title_line (lit ''# '' @ x)" "\<not> is_title_line (lit ''### '' @ x)" "\<not> is_title_line (lit ''## '' @ x)"
  "is_meta_line (lit ''## '' @ x)" "\<not> is_meta_line (lit ''# '' @ x)" "\<not> is_meta_line (lit ''### '' @ x)"
  "is_header (lit ''### '' @ x)" "\<not> is_header (lit ''# '' @ x)" "\<not> is_header (lit ''## '' @ x)"
  "\<not> is_header (lit ''- Date: '' @ x)"
  by (simp_all add: is_title_line_def is_meta_line_def is_header_def lit_def startswith_simps)

lemma drop_lits:
  "drop 2 (lit ''# '' @ x) = x" "drop 3 (lit ''## '' @ x) = x" "drop 4 (lit ''### '' @ x) = x"
  by (simp_all add: lit_def)

lemma head_spec:
  "spec_title (splitlines head_text) = lit ''A''" "spec_meta (splitlines head_text) = []"
  "last_title (splitlines head_text) = lit ''B''" "first_meta (splitlines head_text) = lit ''M''"
  unfolding head_lines
  by (simp_all add: spec_title_def spec_meta_def last_title_def first_meta_def head_shapes word_facts
        drop_lits del: drop_append)

lemma dup_text: "dup_head @ [10] @ dup_tail =
  join_nl [lit ''### '' @ lit ''A'', lit ''- Date: '' @ lit ''1'', lit ''### '' @ lit ''A'', lit ''- Date: '' @ lit ''2'']"
  by (simp add: dup_head_def dup_tail_def)

lemma dup_clean:
  "clean (lit ''### '' @ lit ''A'')" "clean (lit ''- Date: '' @ lit ''1'')" "clean (lit ''- Date: '' @ lit ''2'')"
  "clean (lit ''- Summary:'')" "clean (lit ''  - '' @ lit ''x'')" "clean (lit ''  - '' @ lit ''y'')"
  by (simp_all add: clean_append clean_lits word_facts)

lemma dup_report:
  "parse_report (dup_head @ [10] @ dup_tail) =
     Inr \<lparr>title = [], meta = [],
          sections = [\<lparr>ticker = lit ''A'', kv = [(KDate, lit ''1'')], news = [], ai = []\<rparr>,
                      \<lparr>ticker = lit ''A'', kv = [(KDate, lit ''2'')], news = [], ai = []\<rparr>]\<rparr>"
  unfolding dup_text parse_report_eq
  by (subst fold_splitlines_join)
     (simp_all add: dup_clean step_header step_eval word_facts init_state_def finish_def
        del: join_nl.simps)

lemma note_state:
  "foldl step init_state (splitlines note_head) =
     \<lparr>title = [], meta = [], sections = [],
      current = Some \<lparr>ticker = lit ''A'', kv = [], news = [], ai = lit ''x''\<rparr>,
      mode = MAi, last_news = False\<rparr>"
  unfolding note_head_def
  by (subst fold_splitlines_join)
     (simp_all add: dup_clean step_header step_eval word_facts init_state_def finish_def
        del: join_nl.simps)

lemma note_texts:
  "note_head @ [10] @ l @ [10] @ lit ''  - '' @ lit ''y'' =
     join_nl [lit ''### '' @ lit ''A'', lit ''- Summary:'', lit ''  - '' @ lit ''x'', l, lit ''  - '' @ lit ''y'']"
  "note_head @ [10] @ lit ''  - '' @ lit ''y'' =
     join_nl [lit ''### '' @ lit ''A'', lit ''- Summary:'', lit ''  - '' @ lit ''x'', lit ''  - '' @ lit ''y'']"
  by (simp_all add: note_head_def)

lemma note_plain_report:
  "parse_report (note_head @ [10] @ lit ''  - '' @ lit ''y'') =
     Inr \<lparr>title = [], meta = [],
          sections = [\<lparr>ticker = lit ''A'', kv = [], news = [], ai = lit ''x'' @ [10] @ lit ''y''\<rparr>]\<rparr>"
  unfolding note_texts parse_report_eq
  by (subst fold_splitlines_join)
     (simp_all add: dup_clean step_header step_eval word_facts init_state_def finish_def
        del: join_nl.simps, simp add: lit_def)

lemma strip_x_note: "strip (lit ''x'' @ 32 # lit ''note'') = lit ''x note''"
  by (simp add: strip_def lit_def is_space_def)

lemma note_inserted_report:
  "parse_report (note_head @ [10] @ lit ''note'' @ [10] @ lit ''  - '' @ lit ''y'') =
     Inr \<lparr>title = [], meta = [],
          sections = [\<lparr>ticker = lit ''A'', kv = [], news = [],
                       ai = lit ''x note'' @ [10] @ lit ''y''\<rparr>]\<rparr>"
  unfolding note_texts parse_report_eq
  by (subst fold_splitlines_join)
     (simp_all add: dup_clean note_facts step_header step_eval step_note word_facts init_state_def
        finish_def strip_x_note del: join_nl.simps, simp add: lit_def)

lemma dup_report_nf:
  "parse_report (dup_head @ 10 # dup_tail) =
     Inr \<lparr>title = [], meta = [],
          sections = [\<lparr>ticker = lit ''A'', kv = [(KDate, lit ''1'')], news = [], ai = []\<rparr>,
                      \<lparr>ticker = lit ''A'', kv = [(KDate, lit ''2'')], news = [], ai = []\<rparr>]\<rparr>"
  using dup_report by simp




























section \<open>Claims about the parser\<close>

text \<open>
  Claim C4, as the source has it. For every input text the report's title is taken from
  the last line that starts with \<open># \<close> (every such line overwrites it; it is empty when
  there is none), and the meta line from the first line that starts with \<open>## \<close> and has
  content after it, wherever that line stands, also after a \<open>### \<close> header. The claim
  takes the title from the first \<open># \<close> line and the meta line only from before the first
  header; the text \<open>head_text\<close> shows the difference on both.
\<close>

theorem title_last_meta_first:
  "\<exists>r. parse_report md_text = Inr r
      \<and> title r = last_title (splitlines md_text)
      \<and> meta r = first_meta (splitlines md_text)"
  unfolding parse_report_eq
  by (simp add: finish_simps title_foldl meta_foldl splitlines_clean last_title_def)
     (simp add: init_state_def split: list.split)

theorem title_last_meta_first_witness:
  "\<exists>r. parse_report head_text = Inr r \<and> title r = lit ''B'' \<and> meta r = lit ''M''"
  using title_last_meta_first [of head_text] by (simp add: head_spec)

theorem title_first_meta_before_header_counterexample:
  "parse_report head_text =
     Inr \<lparr>title = lit ''B'', meta = lit ''M'',
          sections = [\<lparr>ticker = lit ''S'', kv = [], news = [], ai = []\<rparr>]\<rparr>
   \<and> spec_title (splitlines head_text) = lit ''A''
   \<and> spec_meta (splitlines head_text) = []
   \<and> lit ''B'' \<noteq> lit ''A'' \<and> lit ''M'' \<noteq> []"
  by (simp add: head_report head_spec) (simp add: lit_def)

text \<open>
  Claim C5, as the source has it. The sections of the report are, in order, one for each
  line that starts with \<open>### \<close>, with that line's symbol: a symbol declared twice has two
  sections. And a block never changes the sections before it: the sections parsed from a
  text are the first sections parsed from that text followed by further blocks. No block
  wins over another one, which the claim says of the last block of a symbol.
\<close>

theorem sections_follow_headers:
  "(\<exists>r. parse_report md_text = Inr r
       \<and> map ticker (sections r)
         = map (\<lambda>l. strip (drop 4 l)) (filter is_header (splitlines md_text)))
   \<and> (startswith b (lit ''### '') \<longrightarrow>
        (\<exists>r r'. parse_report a = Inr r \<and> parse_report (a @ [10] @ b) = Inr r'
           \<and> prefix (sections r) (sections r')))"
  using ordered_sections [of md_text] earlier_sections_kept [of b a] by blast

theorem sections_follow_headers_witness:
  "startswith dup_tail (lit ''### '')
   \<and> (\<exists>r. parse_report (dup_head @ [10] @ dup_tail) = Inr r
         \<and> map ticker (sections r) = [lit ''A'', lit ''A''])
   \<and> (\<exists>r r'. parse_report dup_head = Inr r \<and> parse_report (dup_head @ [10] @ dup_tail) = Inr r'
         \<and> prefix (sections r) (sections r'))"
proof -
  have s: "startswith dup_tail (lit ''### '')"
    by (simp add: dup_tail_def lit_def startswith_simps)
  from sections_follow_headers [of "dup_head @ [10] @ dup_tail" dup_tail dup_head] s
  show ?thesis by (simp add: dup_report_nf)
qed

theorem last_block_wins_counterexample:
  "parse_report (dup_head @ [10] @ dup_tail) =
     Inr \<lparr>title = [], meta = [],
          sections = [\<lparr>ticker = lit ''A'', kv = [(KDate, lit ''1'')], news = [], ai = []\<rparr>,
                      \<lparr>ticker = lit ''A'', kv = [(KDate, lit ''2'')], news = [], ai = []\<rparr>]\<rparr>
   \<and> last_wins [\<lparr>ticker = lit ''A'', kv = [(KDate, lit ''1'')], news = [], ai = []\<rparr>,
                 \<lparr>ticker = lit ''A'', kv = [(KDate, lit ''2'')], news = [], ai = []\<rparr>]
       = [\<lparr>ticker = lit ''A'', kv = [(KDate, lit ''2'')], news = [], ai = []\<rparr>]"
  by (simp add: dup_report_nf last_wins_def upt_rec)

text \<open>
  Claim C3, as the source has it. A line of no known shape (none of the prefixes and bullet
  shapes of the parser), put between two lines of a text, leaves the report as it is when
  the parser is not in narrative mode at that point, or when the line is blank or starts
  with \<open>- \<close>, as a key/value line of a later version would. In narrative mode any other
  line is taken as a continuation of the narrative, so the claim fails there: the line
  \<open>note\<close> lands in the narrative.
\<close>

theorem unknown_line_ignored:
  assumes "clean l" and "unknown_shape l"
    and "mode_after a \<noteq> MAi \<or> strip l = [] \<or> startswith l (lit ''- '')"
  shows "parse_report (a @ [10] @ l @ [10] @ b) = parse_report (a @ [10] @ b)"
proof -
  have 1: "splitlines (a @ 10 # l @ 10 # b) = splitlines (a @ [10]) @ l # splitlines b"
    using splitlines_append_nl [of a "l @ 10 # b"] splitlines_clean_line [OF assms(1), of "[]" b]
    by (simp add: splitlines_def)
  have 2: "splitlines (a @ 10 # b) = splitlines (a @ [10]) @ splitlines b"
    using splitlines_append_nl [of a b] by simp
  have "mode (foldl step init_state (splitlines (a @ [10]))) = mode_after a"
    by (simp add: mode_after_def state_after_nl)
  then have "step (foldl step init_state (splitlines (a @ [10]))) l
             = foldl step init_state (splitlines (a @ [10]))"
    using assms by (intro step_unknown) simp_all
  then show ?thesis by (simp add: parse_report_eq 1 2)
qed

theorem unknown_line_ignored_witness:
  "clean (lit ''- Note: later'') \<and> unknown_shape (lit ''- Note: later'')
   \<and> mode_after note_head = MAi
   \<and> startswith (lit ''- Note: later'') (lit ''- '')
   \<and> parse_report (note_head @ [10] @ lit ''- Note: later'' @ [10] @ lit ''  - '' @ lit ''y'')
       = parse_report (note_head @ [10] @ lit ''  - '' @ lit ''y'')"
proof -
  have m: "mode_after note_head = MAi" by (simp add: mode_after_def note_state)
  have "mode_after note_head \<noteq> MAi \<or> strip (lit ''- Note: later'') = []
        \<or> startswith (lit ''- Note: later'') (lit ''- '')"
    using note_facts(5) by simp
  from unknown_line_ignored [OF note_facts(3,4) this, of "lit ''  - '' @ lit ''y''"]
  show ?thesis using m note_facts by simp
qed

theorem unknown_line_inserted_counterexample:
  "clean (lit ''note'') \<and> unknown_shape (lit ''note'')
   \<and> parse_report (note_head @ [10] @ lit ''note'' @ [10] @ lit ''  - '' @ lit ''y'') =
       Inr \<lparr>title = [], meta = [],
            sections = [\<lparr>ticker = lit ''A'', kv = [], news = [],
                         ai = lit ''x note'' @ [10] @ lit ''y''\<rparr>]\<rparr>
   \<and> parse_report (note_head @ [10] @ lit ''  - '' @ lit ''y'') =
       Inr \<lparr>title = [], meta = [],
            sections = [\<lparr>ticker = lit ''A'', kv = [], news = [],
                         ai = lit ''x'' @ [10] @ lit ''y''\<rparr>]\<rparr>
   \<and> parse_report (note_head @ [10] @ lit ''note'' @ [10] @ lit ''  - '' @ lit ''y'')
       \<noteq> parse_report (note_head @ [10] @ lit ''  - '' @ lit ''y'')"
  by (simp only: note_inserted_report note_plain_report note_facts simp_thms)
     (simp add: lit_def)




end
